theory Spec2Isabelle
  imports Complex_Main "HOL-Library.AList" "HOL-Library.Multiset"
begin

section \<open>The property graph behind the hospital CRM notebook\<close>

text \<open>
  The notebook \<^verbatim>\<open>crm-neo4j-graph-database.ipynb\<close> consists of Python functions that
  each run one Cypher statement inside a transaction \<^verbatim>\<open>tx\<close>. The transaction is
  modelled as the graph it works on: a write function takes the graph and returns the
  new one, a read function returns its rows, and either returns the error instead when
  the call raises.

  Nodes are kept in creation order and are identified by their position; nothing in
  the notebook deletes a node, so positions are stable. A node carries one label and
  a property list. A property that is absent reads as \<open>VNull\<close>, and setting a
  property to \<open>VNull\<close> removes it, as in Cypher. Relationships are kept in creation
  order as well.
\<close>

text \<open>
  The values a call passes are Python's \<^verbatim>\<open>None\<close>, booleans, integers (unbounded), floats and
  strings. A float is not a number of HOL: it is a finite value, the negative zero, one of
  the two infinities, or not a number. A finite float is given by its value; not every
  rational is the value of a float, so the type has more finite floats than Python has. A
  string is given by its bytes.
\<close>

datatype float = Finite rat | NegZero | PosInf | NegInf | NaN

datatype val = VNull | VBool bool | VInt int | VFloat float | VStr string

datatype label = Patient | Doctor | Appointment | Department | Treatment | Medication

datatype rel_type = HAS_APPOINTMENT | WITH_DOCTOR | WORKS_IN | UNDERGOES | INCLUDES_MEDICATION

datatype node = Node (label: label) (props: "(string \<times> val) list")

datatype rel = Rel (src: nat) (rtype: rel_type) (dst: nat)

datatype graph = Graph (nodes: "node list") (rels: "rel list")

datatype error = OverflowError | MergeNullProperty string

definition empty_graph :: graph where
  "empty_graph = Graph [] []"

subsection \<open>The driver\<close>

text \<open>
  \<^verbatim>\<open>tx.run(statement, **parameters)\<close> encodes the parameters before it sends anything. Cypher's
  integers have 64 bits, and the driver raises \<^verbatim>\<open>OverflowError\<close> for a Python integer
  outside that range; then the statement does not run.
\<close>

definition encodable :: "val \<Rightarrow> bool" where
  "encodable v = (case v of VInt i \<Rightarrow> - (2 ^ 63) \<le> i \<and> i < 2 ^ 63 | _ \<Rightarrow> True)"

definition tx_run :: "val list \<Rightarrow> error + 'a \<Rightarrow> error + 'a" where
  \<comment> \<open>The outcome of a statement run with the given parameters.\<close>
  "tx_run params outcome = (if list_all encodable params then outcome else Inl OverflowError)"

subsection \<open>Equality of values\<close>

text \<open>
  Cypher's equality: a null and a float that is not a number equal nothing, not even
  themselves; an integer and a float are equal when they are the same number; the two
  zeros are equal; values of different kinds are different.
\<close>

datatype key = KBool bool | KNum rat | KPosInf | KNegInf | KStr string

fun eq_key :: "val \<Rightarrow> key option" where
  "eq_key VNull = None"
| "eq_key (VBool b) = Some (KBool b)"
| "eq_key (VInt i) = Some (KNum (of_int i))"
| "eq_key (VFloat (Finite q)) = Some (KNum q)"
| "eq_key (VFloat NegZero) = Some (KNum 0)"
| "eq_key (VFloat PosInf) = Some KPosInf"
| "eq_key (VFloat NegInf) = Some KNegInf"
| "eq_key (VFloat NaN) = None"
| "eq_key (VStr s) = Some (KStr s)"

definition cypher_eq :: "val \<Rightarrow> val \<Rightarrow> bool" where
  "cypher_eq a b \<longleftrightarrow> eq_key a \<noteq> None \<and> eq_key a = eq_key b"

subsection \<open>Cypher clauses\<close>

definition property :: "node \<Rightarrow> string \<Rightarrow> val" where
  \<comment> \<open>\<^verbatim>\<open>n.k\<close>: the stored value, null when there is none.\<close>
  "property n k = (case map_of (props n) k of None \<Rightarrow> VNull | Some v \<Rightarrow> v)"

definition set_property :: "string \<Rightarrow> val \<Rightarrow> node \<Rightarrow> node" where
  \<comment> \<open>\<^verbatim>\<open>SET n.k = v\<close>: overwrite, or remove when \<open>v\<close> is null.\<close>
  "set_property k v n =
     Node (label n)
       (if v = VNull then AList.delete k (props n) else AList.update k v (props n))"

fun set_properties :: "(string \<times> val) list \<Rightarrow> node \<Rightarrow> node" where
  "set_properties [] n = n"
| "set_properties ((k, v) # kvs) n = set_properties kvs (set_property k v n)"

definition node_matches :: "label \<Rightarrow> string \<Rightarrow> val \<Rightarrow> node \<Rightarrow> bool" where
  \<comment> \<open>The node pattern \<^verbatim>\<open>(n:L {k: v})\<close>: the label, and \<^verbatim>\<open>n.k = v\<close>.\<close>
  "node_matches l k v n \<longleftrightarrow> label n = l \<and> cypher_eq (property n k) v"

definition match_nodes :: "label \<Rightarrow> string \<Rightarrow> val \<Rightarrow> graph \<Rightarrow> nat list" where
  "match_nodes l k v g =
     filter (\<lambda>i. node_matches l k v (nodes g ! i)) [0..<length (nodes g)]"

definition match_label :: "label \<Rightarrow> graph \<Rightarrow> nat list" where
  \<comment> \<open>The node pattern \<^verbatim>\<open>(n:L)\<close>.\<close>
  "match_label l g = filter (\<lambda>i. label (nodes g ! i) = l) [0..<length (nodes g)]"

definition merge_node :: "label \<Rightarrow> string \<Rightarrow> val \<Rightarrow> graph \<Rightarrow> error + (graph \<times> nat list)" where
  \<comment> \<open>\<^verbatim>\<open>MERGE (n:L {k: v})\<close>: the matching nodes, or one new node when there is none.
      Merging on a null property value is an error of the statement.\<close>
  "merge_node l k v g =
     (if v = VNull then Inl (MergeNullProperty k)
      else (case match_nodes l k v g of
              [] \<Rightarrow> Inr (Graph (nodes g @ [Node l [(k, v)]]) (rels g), [length (nodes g)])
            | p # ps \<Rightarrow> Inr (g, p # ps)))"

definition set_node :: "(string \<times> val) list \<Rightarrow> nat \<Rightarrow> graph \<Rightarrow> graph" where
  "set_node kvs i g = Graph ((nodes g)[i := set_properties kvs (nodes g ! i)]) (rels g)"

definition merge_set_stmt :: "label \<Rightarrow> string \<Rightarrow> val \<Rightarrow> (string \<times> val) list \<Rightarrow> graph \<Rightarrow> error + graph" where
  \<comment> \<open>\<^verbatim>\<open>MERGE (n:L {k: v}) SET n.k1 = v1, ...\<close>: the SET runs on every merged row.\<close>
  "merge_set_stmt l k v kvs g =
     (case merge_node l k v g of
        Inl e \<Rightarrow> Inl e
      | Inr (g', ps) \<Rightarrow> Inr (fold (set_node kvs) ps g'))"

definition merge_set :: "label \<Rightarrow> string \<Rightarrow> val \<Rightarrow> (string \<times> val) list \<Rightarrow> graph \<Rightarrow> error + graph" where
  \<comment> \<open>The statement run with its parameters \<open>v, v1, ...\<close>.\<close>
  "merge_set l k v kvs g = tx_run (v # map snd kvs) (merge_set_stmt l k v kvs g)"

definition match_set_stmt :: "label \<Rightarrow> string \<Rightarrow> val \<Rightarrow> (string \<times> val) list \<Rightarrow> graph \<Rightarrow> error + graph" where
  \<comment> \<open>\<^verbatim>\<open>MATCH (n:L {k: v}) SET n.k1 = v1, ...\<close>: no row, no effect.\<close>
  "match_set_stmt l k v kvs g = Inr (fold (set_node kvs) (match_nodes l k v g) g)"

definition match_set :: "label \<Rightarrow> string \<Rightarrow> val \<Rightarrow> (string \<times> val) list \<Rightarrow> graph \<Rightarrow> error + graph" where
  \<comment> \<open>The statement run with its parameters \<open>v, v1, ...\<close>.\<close>
  "match_set l k v kvs g = tx_run (v # map snd kvs) (match_set_stmt l k v kvs g)"

definition merge_rel :: "nat \<Rightarrow> rel_type \<Rightarrow> nat \<Rightarrow> graph \<Rightarrow> graph" where
  \<comment> \<open>\<^verbatim>\<open>MERGE (p)-[:T]->(a)\<close> on bound nodes: created only when there is none yet.\<close>
  "merge_rel p t a g =
     (if Rel p t a \<in> set (rels g) then g else Graph (nodes g) (rels g @ [Rel p t a]))"

definition match_merge_rel_stmt ::
  "label \<Rightarrow> string \<Rightarrow> val \<Rightarrow> rel_type \<Rightarrow> label \<Rightarrow> string \<Rightarrow> val \<Rightarrow> graph \<Rightarrow> error + graph" where
  \<comment> \<open>\<^verbatim>\<open>MATCH (p:L1 {k1: v1}), (a:L2 {k2: v2}) MERGE (p)-[:T]->(a)\<close>: one merge for
      every pair of matches; no pair, no effect.\<close>
  "match_merge_rel_stmt l1 k1 v1 t l2 k2 v2 g =
     Inr (fold (\<lambda>(p, a). merge_rel p t a)
            (List.product (match_nodes l1 k1 v1 g) (match_nodes l2 k2 v2 g)) g)"

definition match_merge_rel ::
  "label \<Rightarrow> string \<Rightarrow> val \<Rightarrow> rel_type \<Rightarrow> label \<Rightarrow> string \<Rightarrow> val \<Rightarrow> graph \<Rightarrow> error + graph" where
  \<comment> \<open>The statement run with its parameters \<open>v1, v2\<close>.\<close>
  "match_merge_rel l1 k1 v1 t l2 k2 v2 g =
     tx_run [v1, v2] (match_merge_rel_stmt l1 k1 v1 t l2 k2 v2 g)"

definition expand_out :: "graph \<Rightarrow> nat \<Rightarrow> rel_type \<Rightarrow> nat list" where
  \<comment> \<open>\<^verbatim>\<open>(i)-[:T]->(x)\<close>: the targets of the relationships of type \<open>T\<close> leaving \<open>i\<close>.\<close>
  "expand_out g i t =
     [dst r. r \<leftarrow> rels g, src r = i \<and> rtype r = t \<and> dst r < length (nodes g)]"

definition expand_in :: "graph \<Rightarrow> nat \<Rightarrow> rel_type \<Rightarrow> nat list" where
  \<comment> \<open>\<^verbatim>\<open>(i)<-[:T]-(x)\<close>: the sources of the relationships of type \<open>T\<close> entering \<open>i\<close>.\<close>
  "expand_in g i t =
     [src r. r \<leftarrow> rels g, dst r = i \<and> rtype r = t \<and> src r < length (nodes g)]"

subsection \<open>The notebook's write functions\<close>

definition create_patient :: "graph \<Rightarrow> val \<Rightarrow> val \<Rightarrow> val \<Rightarrow> val \<Rightarrow> error + graph" where
  "create_patient tx patient_id name age contact =
     merge_set Patient ''patient_id'' patient_id
       [(''name'', name), (''age'', age), (''contact'', contact)] tx"

definition create_doctor :: "graph \<Rightarrow> val \<Rightarrow> val \<Rightarrow> val \<Rightarrow> error + graph" where
  "create_doctor tx doctor_id name specialty =
     merge_set Doctor ''doctor_id'' doctor_id
       [(''name'', name), (''specialty'', specialty)] tx"

definition create_appointment :: "graph \<Rightarrow> val \<Rightarrow> val \<Rightarrow> val \<Rightarrow> error + graph" where
  "create_appointment tx appointment_id date time =
     merge_set Appointment ''appointment_id'' appointment_id
       [(''date'', date), (''time'', time)] tx"

definition link_patient_appointment :: "graph \<Rightarrow> val \<Rightarrow> val \<Rightarrow> error + graph" where
  "link_patient_appointment tx patient_id appointment_id =
     match_merge_rel Patient ''patient_id'' patient_id HAS_APPOINTMENT
       Appointment ''appointment_id'' appointment_id tx"

definition link_appointment_doctor :: "graph \<Rightarrow> val \<Rightarrow> val \<Rightarrow> error + graph" where
  "link_appointment_doctor tx appointment_id doctor_id =
     match_merge_rel Appointment ''appointment_id'' appointment_id WITH_DOCTOR
       Doctor ''doctor_id'' doctor_id tx"

definition create_treatment :: "graph \<Rightarrow> val \<Rightarrow> val \<Rightarrow> error + graph" where
  "create_treatment tx treatment_id description =
     merge_set Treatment ''treatment_id'' treatment_id
       [(''description'', description)] tx"

definition create_medication :: "graph \<Rightarrow> val \<Rightarrow> val \<Rightarrow> val \<Rightarrow> error + graph" where
  "create_medication tx medication_id name dosage =
     merge_set Medication ''medication_id'' medication_id
       [(''name'', name), (''dosage'', dosage)] tx"

definition link_treatment_medication :: "graph \<Rightarrow> val \<Rightarrow> val \<Rightarrow> error + graph" where
  "link_treatment_medication tx treatment_id medication_id =
     match_merge_rel Treatment ''treatment_id'' treatment_id INCLUDES_MEDICATION
       Medication ''medication_id'' medication_id tx"

definition link_patient_treatment :: "graph \<Rightarrow> val \<Rightarrow> val \<Rightarrow> error + graph" where
  "link_patient_treatment tx patient_id treatment_id =
     match_merge_rel Patient ''patient_id'' patient_id UNDERGOES
       Treatment ''treatment_id'' treatment_id tx"

definition set_appointment_reminder :: "graph \<Rightarrow> val \<Rightarrow> val \<Rightarrow> error + graph" where
  "set_appointment_reminder tx appointment_id reminder_sent =
     match_set Appointment ''appointment_id'' appointment_id
       [(''reminder_sent'', reminder_sent)] tx"

subsection \<open>The notebook's read functions\<close>

text \<open>
  A row is the tuple of the returned columns. Cypher leaves the order of the rows of a
  statement open unless it has an \<^verbatim>\<open>ORDER BY\<close>: the order is the engine's. A read
  function therefore takes the engine's order as a parameter \<open>ord\<close>, a function that
  lists the rows it is given in some order (\<open>row_order\<close>). The rows themselves are
  enumerated by nodes and relationships in creation order before \<open>ord\<close> is applied.
\<close>

definition row_order :: "('a list \<Rightarrow> 'a list) \<Rightarrow> bool" where
  \<comment> \<open>What an engine may do to the rows: list the same rows, each as often, in any order.\<close>
  "row_order ord \<longleftrightarrow> (\<forall>xs. mset (ord xs) = mset xs)"

definition patient_appointment_rows :: "graph \<Rightarrow> val \<Rightarrow> (val \<times> val \<times> val \<times> val) list" where
  \<comment> \<open>\<^verbatim>\<open>MATCH (p:Patient {patient_id: $patient_id})-[:HAS_APPOINTMENT]->(a)-[:WITH_DOCTOR]->(d)\<close>
      with the columns of the \<^verbatim>\<open>RETURN\<close>.\<close>
  "patient_appointment_rows tx patient_id =
     [(property (nodes tx ! a) ''appointment_id'', property (nodes tx ! a) ''date'',
       property (nodes tx ! a) ''time'', property (nodes tx ! d) ''name'').
        p \<leftarrow> match_nodes Patient ''patient_id'' patient_id tx,
        a \<leftarrow> expand_out tx p HAS_APPOINTMENT,
        d \<leftarrow> expand_out tx a WITH_DOCTOR]"

definition get_patient_appointments ::
  "((val \<times> val \<times> val \<times> val) list \<Rightarrow> (val \<times> val \<times> val \<times> val) list) \<Rightarrow> graph \<Rightarrow> val \<Rightarrow>
     error + (val \<times> val \<times> val \<times> val) list" where
  "get_patient_appointments ord tx patient_id =
     tx_run [patient_id] (Inr (ord (patient_appointment_rows tx patient_id)))"

definition doctor_patient_rows :: "graph \<Rightarrow> val \<Rightarrow> (val \<times> val) list" where
  \<comment> \<open>\<^verbatim>\<open>MATCH (d:Doctor {doctor_id: $doctor_id})<-[:WITH_DOCTOR]-(a)<-[:HAS_APPOINTMENT]-(p)\<close>
      with the columns of the \<^verbatim>\<open>RETURN\<close>.\<close>
  "doctor_patient_rows tx doctor_id =
     [(property (nodes tx ! p) ''patient_id'', property (nodes tx ! p) ''name'').
        d \<leftarrow> match_nodes Doctor ''doctor_id'' doctor_id tx,
        a \<leftarrow> expand_in tx d WITH_DOCTOR,
        p \<leftarrow> expand_in tx a HAS_APPOINTMENT]"

definition get_doctor_patients ::
  "((val \<times> val) list \<Rightarrow> (val \<times> val) list) \<Rightarrow> graph \<Rightarrow> val \<Rightarrow> error + (val \<times> val) list" where
  "get_doctor_patients ord tx doctor_id =
     tx_run [doctor_id] (Inr (ord (doctor_patient_rows tx doctor_id)))"

definition workload_rows :: "graph \<Rightarrow> val list" where
  \<comment> \<open>The rows of \<^verbatim>\<open>MATCH (d:Doctor)<-[:WITH_DOCTOR]-(a)\<close>, projected to \<^verbatim>\<open>d.name\<close>.\<close>
  "workload_rows tx =
     [property (nodes tx ! d) ''name''.
        d \<leftarrow> match_label Doctor tx, a \<leftarrow> expand_in tx d WITH_DOCTOR]"

definition workload_groups :: "graph \<Rightarrow> (val \<times> nat) list" where
  \<comment> \<open>\<^verbatim>\<open>RETURN d.name, COUNT(a)\<close> groups the rows by \<^verbatim>\<open>d.name\<close>, the only column that
      is not an aggregate, and counts the rows of each group.\<close>
  "workload_groups tx =
     (let rows = workload_rows tx in [(n, count_list rows n). n \<leftarrow> remdups rows])"

definition get_doctor_workload ::
  "((val \<times> nat) list \<Rightarrow> (val \<times> nat) list) \<Rightarrow> graph \<Rightarrow> (val \<times> nat) list" where
  \<comment> \<open>\<^verbatim>\<open>ORDER BY appointments DESC\<close> sorts the groups, which come in the engine's order;
      groups with equal counts stay in that order.\<close>
  "get_doctor_workload ord tx = sort_key (\<lambda>r. - int (snd r)) (ord (workload_groups tx))"

subsection \<open>The executed flow\<close>

datatype op =
    Create_patient val val val val
  | Create_doctor val val val
  | Create_appointment val val val
  | Link_patient_appointment val val
  | Link_appointment_doctor val val
  | Create_treatment val val
  | Create_medication val val val
  | Link_treatment_medication val val
  | Link_patient_treatment val val
  | Set_appointment_reminder val val
  | Get_patient_appointments val
  | Get_doctor_patients val
  | Get_doctor_workload

fun exec :: "op \<Rightarrow> graph \<Rightarrow> error + graph" where
  \<comment> \<open>\<^verbatim>\<open>session.write_transaction(f, ...)\<close> and \<^verbatim>\<open>session.read_transaction(f, ...)\<close>;
      a read leaves the graph as it is, and raises when its parameter cannot be encoded.\<close>
  "exec (Create_patient i n a c) g = create_patient g i n a c"
| "exec (Create_doctor i n s) g = create_doctor g i n s"
| "exec (Create_appointment i d t) g = create_appointment g i d t"
| "exec (Link_patient_appointment p a) g = link_patient_appointment g p a"
| "exec (Link_appointment_doctor a d) g = link_appointment_doctor g a d"
| "exec (Create_treatment i d) g = create_treatment g i d"
| "exec (Create_medication i n d) g = create_medication g i n d"
| "exec (Link_treatment_medication t m) g = link_treatment_medication g t m"
| "exec (Link_patient_treatment p t) g = link_patient_treatment g p t"
| "exec (Set_appointment_reminder a r) g = set_appointment_reminder g a r"
| "exec (Get_patient_appointments p) g = tx_run [p] (Inr g)"
| "exec (Get_doctor_patients d) g = tx_run [d] (Inr g)"
| "exec Get_doctor_workload g = Inr g"

fun run :: "op list \<Rightarrow> graph \<Rightarrow> error + graph" where
  "run [] g = Inr g"
| "run (x # xs) g = (case exec x g of Inl e \<Rightarrow> Inl e | Inr g' \<Rightarrow> run xs g')"

definition populating_database :: "op list" where
  "populating_database =
     [Create_patient (VStr ''P001'') (VStr ''Alice Smith'') (VInt 30) (VStr ''555-1234''),
      Create_patient (VStr ''P002'') (VStr ''Bob Johnson'') (VInt 45) (VStr ''555-5678''),
      Create_doctor (VStr ''D001'') (VStr ''Dr. Emily Brown'') (VStr ''Cardiology''),
      Create_doctor (VStr ''D002'') (VStr ''Dr. John Doe'') (VStr ''Neurology''),
      Create_appointment (VStr ''A001'') (VStr ''2023-10-15'') (VStr ''10:00''),
      Create_appointment (VStr ''A002'') (VStr ''2023-10-16'') (VStr ''14:00''),
      Link_patient_appointment (VStr ''P001'') (VStr ''A001''),
      Link_patient_appointment (VStr ''P002'') (VStr ''A002''),
      Link_appointment_doctor (VStr ''A001'') (VStr ''D001''),
      Link_appointment_doctor (VStr ''A002'') (VStr ''D002'')]"

definition populating_treatments :: "op list" where
  "populating_treatments =
     [Create_treatment (VStr ''T001'') (VStr ''Heart Disease Treatment''),
      Create_medication (VStr ''M001'') (VStr ''Aspirin'') (VStr ''100mg daily''),
      Create_medication (VStr ''M002'') (VStr ''Beta Blockers'') (VStr ''50mg daily''),
      Link_treatment_medication (VStr ''T001'') (VStr ''M001''),
      Link_treatment_medication (VStr ''T001'') (VStr ''M002''),
      Link_patient_treatment (VStr ''P001'') (VStr ''T001'')]"

definition after_population :: "op list" where
  "after_population = [Set_appointment_reminder (VStr ''A001'') (VBool False), Get_doctor_workload]"

definition notebook_flow :: "op list" where
  "notebook_flow =
     populating_database
     @ [Get_patient_appointments (VStr ''P001''), Get_doctor_patients (VStr ''D001'')]
     @ populating_treatments
     @ after_population"

subsection \<open>The statement behind each write call\<close>

text \<open>
  For stating properties of all upserts and of all links at once: the \<^verbatim>\<open>MERGE\<close> pattern
  and the \<^verbatim>\<open>SET\<close> items of a node-creating call, and the two \<^verbatim>\<open>MATCH\<close> patterns and
  the relationship type of a linking call.
\<close>

fun upsert_call :: "op \<Rightarrow> (label \<times> string \<times> val \<times> (string \<times> val) list) option" where
  "upsert_call (Create_patient i n a c) =
     Some (Patient, ''patient_id'', i, [(''name'', n), (''age'', a), (''contact'', c)])"
| "upsert_call (Create_doctor i n s) =
     Some (Doctor, ''doctor_id'', i, [(''name'', n), (''specialty'', s)])"
| "upsert_call (Create_appointment i d t) =
     Some (Appointment, ''appointment_id'', i, [(''date'', d), (''time'', t)])"
| "upsert_call (Create_treatment i d) =
     Some (Treatment, ''treatment_id'', i, [(''description'', d)])"
| "upsert_call (Create_medication i n d) =
     Some (Medication, ''medication_id'', i, [(''name'', n), (''dosage'', d)])"
| "upsert_call _ = None"

fun link_call :: "op \<Rightarrow> (label \<times> string \<times> val \<times> rel_type \<times> label \<times> string \<times> val) option" where
  "link_call (Link_patient_appointment p a) =
     Some (Patient, ''patient_id'', p, HAS_APPOINTMENT, Appointment, ''appointment_id'', a)"
| "link_call (Link_appointment_doctor a d) =
     Some (Appointment, ''appointment_id'', a, WITH_DOCTOR, Doctor, ''doctor_id'', d)"
| "link_call (Link_treatment_medication t m) =
     Some (Treatment, ''treatment_id'', t, INCLUDES_MEDICATION, Medication, ''medication_id'', m)"
| "link_call (Link_patient_treatment p t) =
     Some (Patient, ''patient_id'', p, UNDERGOES, Treatment, ''treatment_id'', t)"
| "link_call _ = None"

definition settled :: "(string \<times> val) list \<Rightarrow> node \<Rightarrow> bool" where
  \<comment> \<open>The node already stores exactly what the \<^verbatim>\<open>SET\<close> items would write.\<close>
  "settled kvs n \<longleftrightarrow>
     (\<forall>(k, v) \<in> set kvs. map_of (props n) k = (if v = VNull then None else Some v))"

subsection \<open>Invariants of the graphs the notebook builds\<close>

text \<open>
  The schema of the notebook gives every relationship type the labels of its two ends.
  The identifying property of a node is the one its \<^verbatim>\<open>MERGE\<close> pattern names.
\<close>

fun rel_from :: "rel_type \<Rightarrow> label" where
  "rel_from HAS_APPOINTMENT = Patient"
| "rel_from WITH_DOCTOR = Appointment"
| "rel_from WORKS_IN = Doctor"
| "rel_from UNDERGOES = Patient"
| "rel_from INCLUDES_MEDICATION = Treatment"

fun rel_to :: "rel_type \<Rightarrow> label" where
  "rel_to HAS_APPOINTMENT = Appointment"
| "rel_to WITH_DOCTOR = Doctor"
| "rel_to WORKS_IN = Department"
| "rel_to UNDERGOES = Treatment"
| "rel_to INCLUDES_MEDICATION = Medication"

definition well_typed :: "graph \<Rightarrow> bool" where
  \<comment> \<open>Every relationship joins two stored nodes of the labels of the schema.\<close>
  "well_typed g \<longleftrightarrow>
     (\<forall>r \<in> set (rels g).
        src r < length (nodes g) \<and> dst r < length (nodes g) \<and>
        label (nodes g ! src r) = rel_from (rtype r) \<and>
        label (nodes g ! dst r) = rel_to (rtype r))"

definition id_keys :: "string list" where
  "id_keys = [''patient_id'', ''doctor_id'', ''appointment_id'', ''treatment_id'', ''medication_id'']"

definition unique_ids :: "graph \<Rightarrow> bool" where
  \<comment> \<open>No label and identifying value is borne by two nodes.\<close>
  "unique_ids g \<longleftrightarrow> (\<forall>l k v. k \<in> set id_keys \<longrightarrow> length (match_nodes l k v g) \<le> 1)"

definition entity_of :: "node \<Rightarrow> label \<times> val list" where
  \<comment> \<open>What identifies a node as an entity: its label and its identifying properties.\<close>
  "entity_of n = (label n, map (property n) id_keys)"

subsection \<open>What a step of the flow keeps\<close>

definition same_but_reminder :: "node \<Rightarrow> node \<Rightarrow> bool" where
  \<comment> \<open>The same node, apart from the reminder flag.\<close>
  "same_but_reminder n n' \<longleftrightarrow>
     label n' = label n \<and>
     AList.delete ''reminder_sent'' (props n') = AList.delete ''reminder_sent'' (props n)"

definition step_keeps :: "graph \<Rightarrow> graph \<Rightarrow> bool" where
  \<comment> \<open>Every node of \<open>g\<close> is still there, changed at most in its reminder flag, and the
      relationships of \<open>g\<close> are the first relationships of \<open>g'\<close>.\<close>
  "step_keeps g g' \<longleftrightarrow>
     length (nodes g) \<le> length (nodes g') \<and>
     list_all2 same_but_reminder (nodes g) (take (length (nodes g)) (nodes g')) \<and>
     take (length (rels g)) (rels g') = rels g"

fun flow_keeps :: "op list \<Rightarrow> graph \<Rightarrow> bool" where
  \<comment> \<open>Every call of the flow succeeds and keeps the graph it starts from.\<close>
  "flow_keeps [] g = True"
| "flow_keeps (x # xs) g =
     (case exec x g of Inl e \<Rightarrow> False | Inr g' \<Rightarrow> step_keeps g g' \<and> flow_keeps xs g')"

subsection \<open>The workload of a name\<close>

definition name_count :: "graph \<Rightarrow> val \<Rightarrow> nat" where
  \<comment> \<open>The number of \<^verbatim>\<open>WITH_DOCTOR\<close> relationships into the doctors named \<open>n\<close>.\<close>
  "name_count g n =
     (\<Sum>d\<leftarrow>match_label Doctor g.
        if property (nodes g ! d) ''name'' = n then length (expand_in g d WITH_DOCTOR) else 0)"

subsection \<open>The metrics table\<close>

text \<open>
  Modelled from the spec: the metrics notebook \<^verbatim>\<open>RCM-Healthcare.ipynb\<close> and the script
  \<^verbatim>\<open>rcm_analysis.py\<close> that the README names are not among the sources. The README and
  the spec give the columns of a hospital record and the derived column
  \<^verbatim>\<open>Revenue_Gap = Payment_Per_Patient - Cost_Per_Patient\<close>; the amounts of the README's
  example record are whole numbers.
\<close>

record HospitalRecord =
  Hospital_ID :: int
  State :: string
  Cost_Per_Patient :: int
  Payment_Per_Patient :: int

definition Revenue_Gap :: "HospitalRecord \<Rightarrow> int" where
  \<comment> \<open>Modelled from the spec: the derived field, payment minus cost; the notebook that
      computes it is not among the sources.\<close>
  "Revenue_Gap r = Payment_Per_Patient r - Cost_Per_Patient r"

definition add_revenue_gap :: "HospitalRecord list \<Rightarrow> (HospitalRecord \<times> int) list" where
  \<comment> \<open>Modelled from the spec: the derived-field computation over the table, one value per
      row; the notebook that computes it is not among the sources.\<close>
  "add_revenue_gap rs = map (\<lambda>r. (r, Revenue_Gap r)) rs"

subsection \<open>Sample states\<close>

text \<open>
  The setup with one patient, one appointment and one doctor, the graph it builds, and
  variations of that graph; the graph after the first population cell of the notebook;
  a population in which two doctors bear the same name; and a population in which one
  patient has two appointments.
\<close>

definition p001_setup :: "op list" where
  "p001_setup =
     [Create_patient (VStr ''P001'') (VStr ''Alice Smith'') (VInt 30) (VStr ''555-1234''),
      Create_appointment (VStr ''A001'') (VStr ''2023-10-15'') (VStr ''10:00''),
      Create_doctor (VStr ''D001'') (VStr ''Dr. Emily Brown'') (VStr ''Cardiology''),
      Link_patient_appointment (VStr ''P001'') (VStr ''A001''),
      Link_appointment_doctor (VStr ''A001'') (VStr ''D001'')]"

definition p001_graph :: graph where
  "p001_graph =
     Graph
       [Node Patient [(''patient_id'', VStr ''P001''), (''name'', VStr ''Alice Smith''),
                      (''age'', VInt 30), (''contact'', VStr ''555-1234'')],
        Node Appointment [(''appointment_id'', VStr ''A001''), (''date'', VStr ''2023-10-15''),
                          (''time'', VStr ''10:00'')],
        Node Doctor [(''doctor_id'', VStr ''D001''), (''name'', VStr ''Dr. Emily Brown''),
                     (''specialty'', VStr ''Cardiology'')]]
       [Rel 0 HAS_APPOINTMENT 1, Rel 1 WITH_DOCTOR 2]"

definition reminded_graph :: graph where
  "reminded_graph =
     Graph
       [Node Patient [(''patient_id'', VStr ''P001''), (''name'', VStr ''Alice Smith''),
                      (''age'', VInt 30), (''contact'', VStr ''555-1234'')],
        Node Appointment [(''appointment_id'', VStr ''A001''), (''date'', VStr ''2023-10-15''),
                          (''time'', VStr ''10:00''), (''reminder_sent'', VBool False)],
        Node Doctor [(''doctor_id'', VStr ''D001''), (''name'', VStr ''Dr. Emily Brown''),
                     (''specialty'', VStr ''Cardiology'')]]
       [Rel 0 HAS_APPOINTMENT 1, Rel 1 WITH_DOCTOR 2]"

definition name_only_graph :: graph where
  "name_only_graph =
     Graph
       [Node Patient [(''patient_id'', VStr ''P001''), (''name'', VStr ''Alice Smith'')],
        Node Appointment [(''appointment_id'', VStr ''A001''), (''date'', VStr ''2023-10-15''),
                          (''time'', VStr ''10:00'')],
        Node Doctor [(''doctor_id'', VStr ''D001''), (''name'', VStr ''Dr. Emily Brown''),
                     (''specialty'', VStr ''Cardiology'')]]
       [Rel 0 HAS_APPOINTMENT 1, Rel 1 WITH_DOCTOR 2]"

definition half_linked_graph :: graph where
  "half_linked_graph =
     Graph
       [Node Patient [(''patient_id'', VStr ''P001''), (''name'', VStr ''Alice Smith''),
                      (''age'', VInt 30), (''contact'', VStr ''555-1234'')],
        Node Appointment [(''appointment_id'', VStr ''A001''), (''date'', VStr ''2023-10-15''),
                          (''time'', VStr ''10:00'')],
        Node Doctor [(''doctor_id'', VStr ''D001''), (''name'', VStr ''Dr. Emily Brown''),
                     (''specialty'', VStr ''Cardiology'')],
        Node Appointment [(''appointment_id'', VStr ''A002''), (''date'', VStr ''2023-10-16''),
                          (''time'', VStr ''14:00'')]]
       [Rel 0 HAS_APPOINTMENT 1, Rel 1 WITH_DOCTOR 2, Rel 0 HAS_APPOINTMENT 3]"

definition populated_graph :: graph where
  "populated_graph =
     Graph
       [Node Patient [(''patient_id'', VStr ''P001''), (''name'', VStr ''Alice Smith''),
                      (''age'', VInt 30), (''contact'', VStr ''555-1234'')],
        Node Patient [(''patient_id'', VStr ''P002''), (''name'', VStr ''Bob Johnson''),
                      (''age'', VInt 45), (''contact'', VStr ''555-5678'')],
        Node Doctor [(''doctor_id'', VStr ''D001''), (''name'', VStr ''Dr. Emily Brown''),
                     (''specialty'', VStr ''Cardiology'')],
        Node Doctor [(''doctor_id'', VStr ''D002''), (''name'', VStr ''Dr. John Doe''),
                     (''specialty'', VStr ''Neurology'')],
        Node Appointment [(''appointment_id'', VStr ''A001''), (''date'', VStr ''2023-10-15''),
                          (''time'', VStr ''10:00'')],
        Node Appointment [(''appointment_id'', VStr ''A002''), (''date'', VStr ''2023-10-16''),
                          (''time'', VStr ''14:00'')]]
       [Rel 0 HAS_APPOINTMENT 4, Rel 1 HAS_APPOINTMENT 5,
        Rel 4 WITH_DOCTOR 2, Rel 5 WITH_DOCTOR 3]"

definition same_name_doctors :: "op list" where
  "same_name_doctors =
     [Create_doctor (VStr ''D001'') (VStr ''Dr. Smith'') (VStr ''Cardiology''),
      Create_doctor (VStr ''D002'') (VStr ''Dr. Smith'') (VStr ''Neurology''),
      Create_appointment (VStr ''A001'') (VStr ''2023-10-15'') (VStr ''10:00''),
      Create_appointment (VStr ''A002'') (VStr ''2023-10-16'') (VStr ''14:00''),
      Link_appointment_doctor (VStr ''A001'') (VStr ''D001''),
      Link_appointment_doctor (VStr ''A002'') (VStr ''D002'')]"

definition same_name_graph :: graph where
  "same_name_graph =
     Graph
       [Node Doctor [(''doctor_id'', VStr ''D001''), (''name'', VStr ''Dr. Smith''),
                     (''specialty'', VStr ''Cardiology'')],
        Node Doctor [(''doctor_id'', VStr ''D002''), (''name'', VStr ''Dr. Smith''),
                     (''specialty'', VStr ''Neurology'')],
        Node Appointment [(''appointment_id'', VStr ''A001''), (''date'', VStr ''2023-10-15''),
                          (''time'', VStr ''10:00'')],
        Node Appointment [(''appointment_id'', VStr ''A002''), (''date'', VStr ''2023-10-16''),
                          (''time'', VStr ''14:00'')]]
       [Rel 2 WITH_DOCTOR 0, Rel 3 WITH_DOCTOR 1]"

definition two_appointments :: "op list" where
  "two_appointments =
     [Create_patient (VStr ''P001'') (VStr ''Alice Smith'') (VInt 30) (VStr ''555-1234''),
      Create_doctor (VStr ''D001'') (VStr ''Dr. Emily Brown'') (VStr ''Cardiology''),
      Create_appointment (VStr ''A001'') (VStr ''2023-10-15'') (VStr ''10:00''),
      Create_appointment (VStr ''A002'') (VStr ''2023-10-16'') (VStr ''14:00''),
      Link_patient_appointment (VStr ''P001'') (VStr ''A001''),
      Link_patient_appointment (VStr ''P001'') (VStr ''A002''),
      Link_appointment_doctor (VStr ''A001'') (VStr ''D001''),
      Link_appointment_doctor (VStr ''A002'') (VStr ''D001'')]"

definition two_appointments_graph :: graph where
  "two_appointments_graph =
     Graph
       [Node Patient [(''patient_id'', VStr ''P001''), (''name'', VStr ''Alice Smith''),
                      (''age'', VInt 30), (''contact'', VStr ''555-1234'')],
        Node Doctor [(''doctor_id'', VStr ''D001''), (''name'', VStr ''Dr. Emily Brown''),
                     (''specialty'', VStr ''Cardiology'')],
        Node Appointment [(''appointment_id'', VStr ''A001''), (''date'', VStr ''2023-10-15''),
                          (''time'', VStr ''10:00'')],
        Node Appointment [(''appointment_id'', VStr ''A002''), (''date'', VStr ''2023-10-16''),
                          (''time'', VStr ''14:00'')]]
       [Rel 0 HAS_APPOINTMENT 2, Rel 0 HAS_APPOINTMENT 3,
        Rel 2 WITH_DOCTOR 1, Rel 3 WITH_DOCTOR 1]"

section \<open>Properties of the clauses\<close>

subsection \<open>The driver and the equality of values\<close>

lemma tx_run_Inr: "tx_run ps r = Inr y \<longleftrightarrow> list_all encodable ps \<and> r = Inr y"
  by (simp add: tx_run_def)

lemma tx_run_encodable: "list_all encodable ps \<Longrightarrow> tx_run ps r = r"
  by (simp add: tx_run_def)

lemma tx_run_overflow: "\<not> list_all encodable ps \<Longrightarrow> tx_run ps r = Inl OverflowError"
  by (simp add: tx_run_def)

lemma cypher_eq_sym: "cypher_eq a b \<Longrightarrow> cypher_eq b a"
  unfolding cypher_eq_def by metis

lemma cypher_eq_trans: "cypher_eq a b \<Longrightarrow> cypher_eq b c \<Longrightarrow> cypher_eq a c"
  unfolding cypher_eq_def by metis

lemma cypher_eq_null [simp]: "\<not> cypher_eq VNull v" "\<not> cypher_eq v VNull"
  by (auto simp: cypher_eq_def)

lemma cypher_eq_not_null: "cypher_eq a b \<Longrightarrow> a \<noteq> VNull \<and> b \<noteq> VNull"
  by auto

lemma cypher_eq_self: "cypher_eq a b \<Longrightarrow> cypher_eq a a \<and> cypher_eq b b"
  unfolding cypher_eq_def by metis

lemma node_matches_eq: "cypher_eq v v' \<Longrightarrow> node_matches l k v n = node_matches l k v' n"
  unfolding node_matches_def using cypher_eq_trans cypher_eq_sym by blast

lemma node_matches_not_null: "node_matches l k v n \<Longrightarrow> v \<noteq> VNull"
  by (auto simp: node_matches_def)

lemma node_matches_self: "node_matches l k v n \<Longrightarrow> cypher_eq v v"
  unfolding node_matches_def using cypher_eq_self by blast

subsection \<open>Setting properties\<close>

lemma label_set_property [simp]: "label (set_property k v n) = label n"
  by (simp add: set_property_def)

lemma map_of_set_property:
  "map_of (props (set_property k v n)) =
     (if v = VNull then (map_of (props n))(k := None) else (map_of (props n))(k \<mapsto> v))"
  by (simp add: set_property_def update_conv' delete_conv')

lemma property_set_property:
  "property (set_property k v n) k' = (if k' = k then v else property n k')"
  by (simp add: property_def map_of_set_property)

lemma label_set_properties [simp]: "label (set_properties kvs n) = label n"
  by (induction kvs n rule: set_properties.induct) simp_all

lemma map_of_set_properties_other:
  "k \<notin> fst ` set kvs \<Longrightarrow> map_of (props (set_properties kvs n)) k = map_of (props n) k"
  by (induction kvs n rule: set_properties.induct) (auto simp: map_of_set_property)

lemma property_set_properties_other:
  "k \<notin> fst ` set kvs \<Longrightarrow> property (set_properties kvs n) k = property n k"
  by (simp add: property_def map_of_set_properties_other)

lemma property_set_properties_in:
  "distinct (map fst kvs) \<Longrightarrow> (k, v) \<in> set kvs \<Longrightarrow> property (set_properties kvs n) k = v"
proof (induction kvs n rule: set_properties.induct)
  case (1 n)
  then show ?case by simp
next
  case (2 k' v' kvs n)
  show ?case
  proof (cases "(k, v) = (k', v')")
    case True
    with 2 have "k \<notin> fst ` set kvs" by auto
    then show ?thesis using True
      by (simp add: property_set_properties_other property_set_property)
  next
    case False
    with 2 show ?thesis by auto
  qed
qed

lemma set_property_settled:
  "map_of (props n) k = (if v = VNull then None else Some v) \<Longrightarrow> set_property k v n = n"
  by (cases n) (auto simp: set_property_def update_triv map_of_eq_None_iff split: if_splits)

lemma set_properties_settled: "settled kvs n \<Longrightarrow> set_properties kvs n = n"
  by (induction kvs n rule: set_properties.induct)
     (auto simp: settled_def set_property_settled)

lemma settled_set_properties:
  "distinct (map fst kvs) \<Longrightarrow> settled kvs (set_properties kvs n)"
proof (induction kvs n rule: set_properties.induct)
  case (1 n)
  then show ?case by (simp add: settled_def)
next
  case (2 k v kvs n)
  then have notin: "k \<notin> fst ` set kvs" and d: "distinct (map fst kvs)" by auto
  have "map_of (props (set_properties kvs (set_property k v n))) k
          = (if v = VNull then None else Some v)"
    by (simp add: map_of_set_properties_other [OF notin] map_of_set_property)
  moreover have "settled kvs (set_properties kvs (set_property k v n))"
    using "2.IH" d by simp
  ultimately show ?case by (simp add: settled_def)
qed

lemma set_properties_idem:
  "distinct (map fst kvs) \<Longrightarrow> set_properties kvs (set_properties kvs n) = set_properties kvs n"
  by (rule set_properties_settled) (rule settled_set_properties)

lemma node_matches_set_properties:
  "k \<notin> fst ` set kvs \<Longrightarrow> node_matches l k v (set_properties kvs n) = node_matches l k v n"
  by (simp add: node_matches_def property_set_properties_other)

subsection \<open>Matching and updating nodes\<close>

lemma length_fold_set_node [simp]:
  "length (nodes (fold (set_node kvs) ps g)) = length (nodes g)"
  by (induction ps arbitrary: g) (simp_all add: set_node_def)

lemma rels_fold_set_node [simp]: "rels (fold (set_node kvs) ps g) = rels g"
  by (induction ps arbitrary: g) (simp_all add: set_node_def)

lemma nth_fold_set_node:
  "distinct ps \<Longrightarrow> i < length (nodes g) \<Longrightarrow>
   nodes (fold (set_node kvs) ps g) ! i =
     (if i \<in> set ps then set_properties kvs (nodes g ! i) else nodes g ! i)"
proof (induction ps arbitrary: g)
  case Nil
  then show ?case by simp
next
  case (Cons p ps)
  have len: "i < length (nodes (set_node kvs p g))"
    using Cons.prems by (simp add: set_node_def)
  have ih: "nodes (fold (set_node kvs) ps (set_node kvs p g)) ! i =
     (if i \<in> set ps then set_properties kvs (nodes (set_node kvs p g) ! i)
      else nodes (set_node kvs p g) ! i)"
    using Cons.prems by (intro Cons.IH [OF _ len]) simp
  have "nodes (set_node kvs p g) ! i =
     (if i = p then set_properties kvs (nodes g ! i) else nodes g ! i)"
    using Cons.prems by (simp add: set_node_def nth_list_update)
  with ih Cons.prems show ?case by auto
qed

lemma set_match_nodes:
  "set (match_nodes l k v g) = {i. i < length (nodes g) \<and> node_matches l k v (nodes g ! i)}"
  by (auto simp: match_nodes_def)

lemma distinct_match_nodes [simp]: "distinct (match_nodes l k v g)"
  by (simp add: match_nodes_def)

lemma match_nodes_cong:
  "length (nodes g') = length (nodes g) \<Longrightarrow>
   (\<And>i. i < length (nodes g) \<Longrightarrow>
      node_matches l k v (nodes g' ! i) = node_matches l k v (nodes g ! i)) \<Longrightarrow>
   match_nodes l k v g' = match_nodes l k v g"
  by (auto simp: match_nodes_def intro: filter_cong)

lemma graph_eqI:
  "length (nodes g') = length (nodes g) \<Longrightarrow>
   (\<And>i. i < length (nodes g) \<Longrightarrow> nodes g' ! i = nodes g ! i) \<Longrightarrow>
   rels g' = rels g \<Longrightarrow> g' = g"
  by (cases g, cases g') (auto intro: nth_equalityI)

lemma match_nodes_fold_set_node:
  assumes "k \<notin> fst ` set kvs" "distinct ps"
  shows "match_nodes l k v (fold (set_node kvs) ps g) = match_nodes l k v g"
  by (rule match_nodes_cong)
     (simp_all add: nth_fold_set_node assms node_matches_set_properties)

lemma fold_set_node_idem:
  assumes "distinct (map fst kvs)" "distinct ps"
  shows "fold (set_node kvs) ps (fold (set_node kvs) ps g) = fold (set_node kvs) ps g"
  by (rule graph_eqI) (simp_all add: nth_fold_set_node assms set_properties_idem)

lemma fold_set_node_Nil [simp]: "fold (set_node kvs) [] g = g"
  by simp

subsection \<open>MERGE with SET\<close>

lemma upsert_call_exec:
  "upsert_call x = Some (l, k, v, kvs) \<Longrightarrow>
     exec x g = merge_set l k v kvs g \<and> k \<notin> fst ` set kvs \<and> distinct (map fst kvs)"
  by (cases x)
     (auto simp: create_patient_def create_doctor_def create_appointment_def
        create_treatment_def create_medication_def)

lemma merge_set_Inr:
  "merge_set l k v kvs g = Inr g' \<longleftrightarrow>
     list_all encodable (v # map snd kvs) \<and> merge_set_stmt l k v kvs g = Inr g'"
  by (simp add: merge_set_def tx_run_Inr)

lemma match_set_Inr:
  "match_set l k v kvs g = Inr g' \<longleftrightarrow>
     list_all encodable (v # map snd kvs) \<and> match_set_stmt l k v kvs g = Inr g'"
  by (simp add: match_set_def tx_run_Inr)

lemma match_merge_rel_Inr:
  "match_merge_rel l1 k1 v1 t l2 k2 v2 g = Inr g' \<longleftrightarrow>
     list_all encodable [v1, v2] \<and> match_merge_rel_stmt l1 k1 v1 t l2 k2 v2 g = Inr g'"
  by (simp add: match_merge_rel_def tx_run_Inr)

lemma merge_set_null: "merge_set_stmt l k VNull kvs g = Inl (MergeNullProperty k)"
  by (simp add: merge_set_stmt_def merge_node_def)

lemma merge_set_new:
  "v \<noteq> VNull \<Longrightarrow> match_nodes l k v g = [] \<Longrightarrow>
   merge_set_stmt l k v kvs g =
     Inr (Graph (nodes g @ [set_properties kvs (Node l [(k, v)])]) (rels g))"
  by (simp add: merge_set_stmt_def merge_node_def set_node_def)

lemma merge_set_old:
  "v \<noteq> VNull \<Longrightarrow> match_nodes l k v g \<noteq> [] \<Longrightarrow>
   merge_set_stmt l k v kvs g = Inr (fold (set_node kvs) (match_nodes l k v g) g)"
  by (cases "match_nodes l k v g") (simp_all add: merge_set_stmt_def merge_node_def)

lemma match_nodes_append_new:
  "match_nodes l k v (Graph (ns @ [n]) rs) =
     match_nodes l k v (Graph ns rs) @ (if node_matches l k v n then [length ns] else [])"
proof -
  have "filter (\<lambda>i. node_matches l k v ((ns @ [n]) ! i)) [0..<length ns] =
        filter (\<lambda>i. node_matches l k v (ns ! i)) [0..<length ns]"
    by (rule filter_cong) (simp_all add: nth_append)
  then show ?thesis by (simp add: match_nodes_def)
qed

lemma match_nodes_rels: "match_nodes l k v (Graph (nodes g) rs) = match_nodes l k v g"
  by (simp add: match_nodes_def)

lemma node_matches_fresh:
  "cypher_eq v v \<Longrightarrow> k \<notin> fst ` set kvs \<Longrightarrow>
   node_matches l k v (set_properties kvs (Node l [(k, v)]))"
  by (simp add: node_matches_set_properties) (simp add: node_matches_def property_def)

lemma merge_set_idem:
  assumes k: "k \<notin> fst ` set kvs" and d: "distinct (map fst kvs)"
    and r: "cypher_eq v v"
    and m: "merge_set_stmt l k v kvs g = Inr g1"
  shows "merge_set_stmt l k v kvs g1 = Inr g1"
proof -
  from r have v: "v \<noteq> VNull" by auto
  show ?thesis
  proof (cases "match_nodes l k v g = []")
    case True
    let ?n = "set_properties kvs (Node l [(k, v)])"
    from m True v have g1: "g1 = Graph (nodes g @ [?n]) (rels g)"
      by (simp add: merge_set_new)
    have mt: "match_nodes l k v g1 = [length (nodes g)]"
      using True r k
      by (simp add: g1 match_nodes_append_new match_nodes_rels node_matches_fresh)
    have "fold (set_node kvs) [length (nodes g)] g1 = g1"
      by (simp add: g1 set_node_def set_properties_idem [OF d])
    with mt v show ?thesis by (simp add: merge_set_old)
  next
    case False
    with m v have g1: "g1 = fold (set_node kvs) (match_nodes l k v g) g"
      by (simp add: merge_set_old)
    have mt: "match_nodes l k v g1 = match_nodes l k v g"
      by (simp add: g1 match_nodes_fold_set_node k)
    show ?thesis
      using False v by (simp add: merge_set_old mt) (simp add: g1 fold_set_node_idem d)
  qed
qed

lemma merge_set_count:
  assumes k: "k \<notin> fst ` set kvs" and r: "cypher_eq v v"
    and m: "merge_set_stmt l k v kvs g = Inr g1"
  shows "length (match_nodes l k v g1) = max 1 (length (match_nodes l k v g))"
proof -
  from r have v: "v \<noteq> VNull" by auto
  show ?thesis
  proof (cases "match_nodes l k v g = []")
    case True
    with m v have g1: "g1 = Graph (nodes g @ [set_properties kvs (Node l [(k, v)])]) (rels g)"
      by (simp add: merge_set_new)
    show ?thesis using True r k
      by (simp add: g1 match_nodes_append_new match_nodes_rels node_matches_fresh)
  next
    case False
    with m v have g1: "g1 = fold (set_node kvs) (match_nodes l k v g) g"
      by (simp add: merge_set_old)
    have "match_nodes l k v g1 = match_nodes l k v g"
      by (simp add: g1 match_nodes_fold_set_node k)
    with False show ?thesis by (cases "match_nodes l k v g") simp_all
  qed
qed

subsection \<open>Merging relationships\<close>

lemma link_call_exec:
  "link_call x = Some (l1, k1, v1, t, l2, k2, v2) \<Longrightarrow>
     exec x g = match_merge_rel l1 k1 v1 t l2 k2 v2 g"
  by (cases x)
     (auto simp: link_patient_appointment_def link_appointment_doctor_def
        link_treatment_medication_def link_patient_treatment_def)

lemma nodes_merge_rel [simp]: "nodes (merge_rel p t a g) = nodes g"
  by (simp add: merge_rel_def)

lemma set_rels_merge_rel: "set (rels (merge_rel p t a g)) = insert (Rel p t a) (set (rels g))"
  by (auto simp: merge_rel_def)

lemma nodes_fold_merge_rel [simp]:
  "nodes (fold (\<lambda>(p, a). merge_rel p t a) prs g) = nodes g"
  by (induction prs arbitrary: g) (simp_all add: split_def)

lemma set_rels_fold_merge_rel:
  "set (rels (fold (\<lambda>(p, a). merge_rel p t a) prs g)) =
     set (rels g) \<union> (\<lambda>(p, a). Rel p t a) ` set prs"
  by (induction prs arbitrary: g) (auto simp: split_def set_rels_merge_rel)

lemma rels_fold_merge_rel_prefix:
  "\<exists>new. rels (fold (\<lambda>(p, a). merge_rel p t a) prs g) = rels g @ new"
proof (induction prs arbitrary: g)
  case Nil
  then show ?case by simp
next
  case (Cons pr prs)
  obtain p a where pr: "pr = (p, a)" by (cases pr)
  have "\<exists>new0. rels (merge_rel p t a g) = rels g @ new0"
    by (cases "Rel p t a \<in> set (rels g)") (simp_all add: merge_rel_def)
  then obtain new0 where n0: "rels (merge_rel p t a g) = rels g @ new0" ..
  from Cons [of "merge_rel p t a g"] obtain new where
    "rels (fold (\<lambda>(p, a). merge_rel p t a) prs (merge_rel p t a g)) = rels (merge_rel p t a g) @ new"
    by blast
  with n0 show ?case by (simp add: pr)
qed

lemma product_Nil_right [simp]: "List.product xs [] = []"
  by (induction xs) simp_all

subsection \<open>The order of the rows\<close>

lemma row_order_set: "row_order ord \<Longrightarrow> set (ord xs) = set xs"
  unfolding row_order_def by (blast dest: mset_eq_setD)

lemma row_order_distinct: "row_order ord \<Longrightarrow> distinct (ord xs) = distinct xs"
  unfolding row_order_def by (blast dest: mset_eq_imp_distinct_iff)

lemma row_order_Nil: "row_order ord \<Longrightarrow> ord [] = []"
  unfolding row_order_def by (metis mset_zero_iff mset.simps(1))

lemma row_order_single: "row_order ord \<Longrightarrow> ord [x] = [x]"
  unfolding row_order_def by (metis mset_single_iff mset.simps mset_zero_iff)

lemma row_order_length: "row_order ord \<Longrightarrow> length (ord xs) = length xs"
  unfolding row_order_def by (blast dest: mset_eq_length)

lemma row_order_id: "row_order id"
  by (simp add: row_order_def)

lemma row_order_rev: "row_order rev"
  by (simp add: row_order_def)

subsection \<open>The traversals\<close>

lemma set_expand_out:
  "set (expand_out g i t) = {j. Rel i t j \<in> set (rels g) \<and> j < length (nodes g)}"
proof -
  have "\<And>r j. (src r = i \<and> rtype r = t \<and> dst r = j) = (r = Rel i t j)"
    by (case_tac r) auto
  then show ?thesis by (auto simp: expand_out_def)
qed

lemma set_expand_in:
  "set (expand_in g i t) = {j. Rel j t i \<in> set (rels g) \<and> j < length (nodes g)}"
proof -
  have "\<And>r j. (dst r = i \<and> rtype r = t \<and> src r = j) = (r = Rel j t i)"
    by (case_tac r) auto
  then show ?thesis by (auto simp: expand_in_def)
qed

lemma mem_patient_appointment_rows:
  "x \<in> set (patient_appointment_rows g pid) \<longleftrightarrow>
     (\<exists>p a d. p < length (nodes g) \<and> node_matches Patient ''patient_id'' pid (nodes g ! p) \<and>
        Rel p HAS_APPOINTMENT a \<in> set (rels g) \<and> a < length (nodes g) \<and>
        Rel a WITH_DOCTOR d \<in> set (rels g) \<and> d < length (nodes g) \<and>
        x = (property (nodes g ! a) ''appointment_id'', property (nodes g ! a) ''date'',
             property (nodes g ! a) ''time'', property (nodes g ! d) ''name''))"
  unfolding patient_appointment_rows_def
  by (simp add: set_expand_out set_match_nodes) blast

lemma mem_doctor_patient_rows:
  "x \<in> set (doctor_patient_rows g did) \<longleftrightarrow>
     (\<exists>d a p. d < length (nodes g) \<and> node_matches Doctor ''doctor_id'' did (nodes g ! d) \<and>
        Rel a WITH_DOCTOR d \<in> set (rels g) \<and> a < length (nodes g) \<and>
        Rel p HAS_APPOINTMENT a \<in> set (rels g) \<and> p < length (nodes g) \<and>
        x = (property (nodes g ! p) ''patient_id'', property (nodes g ! p) ''name''))"
  unfolding doctor_patient_rows_def
  by (simp add: set_expand_in set_match_nodes) blast

lemma run_p001: "run p001_setup empty_graph = Inr p001_graph"
  by code_simp

subsection \<open>What every call keeps\<close>

lemma merge_set_shape:
  assumes "merge_set_stmt l k v kvs g = Inr g'"
  shows "rels g' = rels g \<and> length (nodes g) \<le> length (nodes g') \<and>
         (\<forall>i < length (nodes g). label (nodes g' ! i) = label (nodes g ! i) \<and>
            (\<forall>k'. k' \<notin> fst ` set kvs \<longrightarrow>
               property (nodes g' ! i) k' = property (nodes g ! i) k'))"
proof -
  from assms have v: "v \<noteq> VNull" by (auto simp: merge_set_null)
  show ?thesis
  proof (cases "match_nodes l k v g = []")
    case True
    with assms v show ?thesis by (auto simp: merge_set_new nth_append)
  next
    case False
    with assms v show ?thesis
      by (auto simp: merge_set_old nth_fold_set_node property_set_properties_other)
  qed
qed

lemma match_set_shape:
  assumes "match_set_stmt l k v kvs g = Inr g'"
  shows "rels g' = rels g \<and> length (nodes g') = length (nodes g) \<and>
         (\<forall>i < length (nodes g). label (nodes g' ! i) = label (nodes g ! i) \<and>
            (\<forall>k'. k' \<notin> fst ` set kvs \<longrightarrow>
               property (nodes g' ! i) k' = property (nodes g ! i) k'))"
  using assms
  by (auto simp: match_set_stmt_def nth_fold_set_node property_set_properties_other)

lemma match_merge_rel_shape:
  assumes "match_merge_rel_stmt l1 k1 v1 t l2 k2 v2 g = Inr g'"
  shows "nodes g' = nodes g \<and> (\<exists>new. rels g' = rels g @ new) \<and>
         (\<forall>r \<in> set (rels g') - set (rels g).
            src r < length (nodes g) \<and> dst r < length (nodes g) \<and> rtype r = t \<and>
            label (nodes g ! src r) = l1 \<and> label (nodes g ! dst r) = l2)"
proof -
  let ?prs = "List.product (match_nodes l1 k1 v1 g) (match_nodes l2 k2 v2 g)"
  from assms have g': "g' = fold (\<lambda>(p, a). merge_rel p t a) ?prs g"
    by (simp add: match_merge_rel_stmt_def)
  have 1: "nodes g' = nodes g" by (simp add: g')
  have 2: "\<exists>new. rels g' = rels g @ new"
    unfolding g' by (rule rels_fold_merge_rel_prefix)
  have 3: "\<forall>r \<in> set (rels g') - set (rels g).
            src r < length (nodes g) \<and> dst r < length (nodes g) \<and> rtype r = t \<and>
            label (nodes g ! src r) = l1 \<and> label (nodes g ! dst r) = l2"
    unfolding g'
    by (auto simp: set_rels_fold_merge_rel set_match_nodes node_matches_def)
  from 1 2 3 show ?thesis by blast
qed

lemma upsert_call_stmt:
  assumes "upsert_call x = Some (l, k, v, kvs)" and "exec x g = Inr g'"
  shows "merge_set_stmt l k v kvs g = Inr g' \<and> list_all encodable (v # map snd kvs)"
proof -
  have "exec x g = merge_set l k v kvs g" using upsert_call_exec [OF assms(1)] by blast
  with assms(2) have "merge_set l k v kvs g = Inr g'" by simp
  then show ?thesis unfolding merge_set_Inr by blast
qed

lemma link_call_stmt:
  assumes "link_call x = Some (l1, k1, v1, t, l2, k2, v2)" and "exec x g = Inr g'"
  shows "match_merge_rel_stmt l1 k1 v1 t l2 k2 v2 g = Inr g' \<and> list_all encodable [v1, v2]"
proof -
  have "exec x g = match_merge_rel l1 k1 v1 t l2 k2 v2 g" using assms(1) by (rule link_call_exec)
  with assms(2) have "match_merge_rel l1 k1 v1 t l2 k2 v2 g = Inr g'" by simp
  then show ?thesis unfolding match_merge_rel_Inr by blast
qed

lemma other_call_stmt:
  assumes "upsert_call x = None" and "link_call x = None" and "exec x g = Inr g'"
  shows "g' = g \<or>
         (\<exists>a r. x = Set_appointment_reminder a r \<and>
            match_set_stmt Appointment ''appointment_id'' a [(''reminder_sent'', r)] g = Inr g')"
  using assms
  by (cases x) (simp_all add: set_appointment_reminder_def match_set_Inr tx_run_Inr)

lemma exec_shape:
  assumes "exec x g = Inr g'"
  shows "length (nodes g) \<le> length (nodes g') \<and>
         (\<forall>i < length (nodes g). label (nodes g' ! i) = label (nodes g ! i)) \<and>
         (\<exists>new. rels g' = rels g @ new) \<and>
         (\<forall>r \<in> set (rels g') - set (rels g).
            src r < length (nodes g) \<and> dst r < length (nodes g) \<and>
            label (nodes g ! src r) = rel_from (rtype r) \<and>
            label (nodes g ! dst r) = rel_to (rtype r))"
proof (cases "upsert_call x")
  case (Some c)
  obtain l k v kvs where c: "c = (l, k, v, kvs)" by (cases c)
  from Some c assms have "merge_set_stmt l k v kvs g = Inr g'"
    using upsert_call_stmt by blast
  with merge_set_shape [of l k v kvs g g'] show ?thesis by simp
next
  case None
  show ?thesis
  proof (cases "link_call x")
    case (Some c)
    obtain l1 k1 v1 t l2 k2 v2 where c: "c = (l1, k1, v1, t, l2, k2, v2)" by (cases c)
    from Some c assms have e: "match_merge_rel_stmt l1 k1 v1 t l2 k2 v2 g = Inr g'"
      using link_call_stmt by blast
    from Some c have "rel_from t = l1 \<and> rel_to t = l2" by (cases x) auto
    with e match_merge_rel_shape [of l1 k1 v1 t l2 k2 v2 g g'] show ?thesis by auto
  next
    case n: None
    from other_call_stmt [OF None n assms] show ?thesis
      by (auto dest!: match_set_shape)
  qed
qed

lemma exec_well_typed:
  assumes "exec x g = Inr g'" "well_typed g"
  shows "well_typed g'"
  unfolding well_typed_def
proof
  fix r assume r: "r \<in> set (rels g')"
  note s = exec_shape [OF assms(1)]
  show "src r < length (nodes g') \<and> dst r < length (nodes g') \<and>
        label (nodes g' ! src r) = rel_from (rtype r) \<and>
        label (nodes g' ! dst r) = rel_to (rtype r)"
  proof (cases "r \<in> set (rels g)")
    case True
    with assms(2) have "src r < length (nodes g) \<and> dst r < length (nodes g) \<and>
        label (nodes g ! src r) = rel_from (rtype r) \<and>
        label (nodes g ! dst r) = rel_to (rtype r)"
      by (simp add: well_typed_def)
    with s show ?thesis by auto
  next
    case False
    with r s have "src r < length (nodes g) \<and> dst r < length (nodes g) \<and>
        label (nodes g ! src r) = rel_from (rtype r) \<and>
        label (nodes g ! dst r) = rel_to (rtype r)"
      by blast
    with s show ?thesis by auto
  qed
qed

lemma run_well_typed: "run xs g = Inr g' \<Longrightarrow> well_typed g \<Longrightarrow> well_typed g'"
  by (induction xs arbitrary: g) (auto split: sum.splits dest: exec_well_typed)

lemma well_typed_empty: "well_typed empty_graph"
  by (simp add: well_typed_def empty_graph_def)

subsection \<open>The rows in creation order\<close>

lemma concat_map_filtered:
  "concat (map f (concat (map (\<lambda>r. if P r then [h r] else []) rs))) =
   concat (map (\<lambda>r. if P r then f (h r) else []) rs)"
  by (induction rs) simp_all

lemma map_concat_filtered:
  "map f (concat (map (\<lambda>r. if P r then [h r] else []) rs)) =
   concat (map (\<lambda>r. if P r then [f (h r)] else []) rs)"
  by (induction rs) simp_all

lemma concat_concat_filtered:
  "concat (concat (map (\<lambda>r. if P r then [F r] else []) rs)) =
   concat (map (\<lambda>r. if P r then F r else []) rs)"
  by (induction rs) simp_all

lemma patient_appointment_rows_order:
  "patient_appointment_rows g pid =
     [(property (nodes g ! dst r1) ''appointment_id'', property (nodes g ! dst r1) ''date'',
       property (nodes g ! dst r1) ''time'', property (nodes g ! dst r2) ''name'').
        p \<leftarrow> match_nodes Patient ''patient_id'' pid g,
        r1 \<leftarrow> rels g,
        src r1 = p \<and> rtype r1 = HAS_APPOINTMENT \<and> dst r1 < length (nodes g),
        r2 \<leftarrow> rels g,
        src r2 = dst r1 \<and> rtype r2 = WITH_DOCTOR \<and> dst r2 < length (nodes g)]"
  unfolding patient_appointment_rows_def expand_out_def
  by (simp add: concat_map_filtered map_concat_filtered concat_concat_filtered)

subsection \<open>Grouping and sorting the workload\<close>

lemma set_match_label:
  "set (match_label l g) = {i. i < length (nodes g) \<and> label (nodes g ! i) = l}"
  by (auto simp: match_label_def)

lemma distinct_match_label [simp]: "distinct (match_label l g)"
  by (simp add: match_label_def)

lemma workload_rows_replicate:
  "workload_rows g =
     concat (map (\<lambda>d. replicate (length (expand_in g d WITH_DOCTOR))
                          (property (nodes g ! d) ''name'')) (match_label Doctor g))"
  by (simp add: workload_rows_def map_replicate_const)

lemma count_list_replicate: "count_list (replicate k c) n = (if c = n then k else 0)"
  by (induction k) auto

lemma count_list_concat: "count_list (concat xss) n = (\<Sum>xs\<leftarrow>xss. count_list xs n)"
  by (induction xss) simp_all

lemma count_workload_rows: "count_list (workload_rows g) n = name_count g n"
  by (simp add: workload_rows_replicate count_list_concat name_count_def comp_def
      count_list_replicate)

lemma mem_workload_rows:
  "n \<in> set (workload_rows g) \<longleftrightarrow>
     (\<exists>d. d < length (nodes g) \<and> label (nodes g ! d) = Doctor \<and>
        property (nodes g ! d) ''name'' = n \<and> expand_in g d WITH_DOCTOR \<noteq> [])"
  by (auto simp: workload_rows_replicate set_match_label)

lemma sum_list_single:
  "distinct xs \<Longrightarrow> d \<in> set xs \<Longrightarrow> (\<forall>x \<in> set xs. x \<noteq> d \<longrightarrow> f x = (0::nat)) \<Longrightarrow>
   sum_list (map f xs) = f d"
proof (induction xs)
  case Nil
  then show ?case by simp
next
  case (Cons x xs)
  show ?case
  proof (cases "x = d")
    case True
    with Cons.prems have "\<forall>y \<in> set xs. f y = 0" by auto
    then have "sum_list (map f xs) = 0" by (induction xs) simp_all
    with True show ?thesis by simp
  next
    case False
    with Cons show ?thesis by auto
  qed
qed

lemma set_workload_groups:
  "set (workload_groups g) = (\<lambda>n. (n, name_count g n)) ` set (workload_rows g)"
  by (auto simp: workload_groups_def Let_def count_workload_rows)

lemma distinct_workload_groups: "distinct (workload_groups g)"
  by (simp add: workload_groups_def Let_def distinct_map inj_on_def)

lemma inj_on_fst_workload_groups: "inj_on fst (set (workload_groups g))"
  by (auto simp: set_workload_groups inj_on_def)

lemma set_get_doctor_workload:
  "row_order ord \<Longrightarrow>
   set (get_doctor_workload ord g) = (\<lambda>n. (n, name_count g n)) ` set (workload_rows g)"
  by (simp add: get_doctor_workload_def row_order_set set_workload_groups)

lemma distinct_get_doctor_workload:
  assumes "row_order ord"
  shows "distinct (map fst (get_doctor_workload ord g))"
proof -
  have "distinct (get_doctor_workload ord g)"
    by (simp add: get_doctor_workload_def row_order_distinct [OF assms] distinct_workload_groups)
  moreover have "inj_on fst (set (get_doctor_workload ord g))"
    by (simp add: get_doctor_workload_def row_order_set [OF assms] inj_on_fst_workload_groups)
  ultimately show ?thesis by (simp add: distinct_map)
qed

lemma sorted_get_doctor_workload:
  "sorted_wrt (\<lambda>x y. snd y \<le> snd x) (get_doctor_workload ord g)"
proof -
  let ?f = "\<lambda>r :: val \<times> nat. - int (snd r)"
  have "sorted (map ?f (get_doctor_workload ord g))"
    unfolding get_doctor_workload_def by (rule sorted_sort_key)
  then have "sorted_wrt (\<lambda>x y. ?f x \<le> ?f y) (get_doctor_workload ord g)"
    by (simp add: sorted_map)
  then show ?thesis by (rule sorted_wrt_mono_rel [rotated]) simp
qed

lemma run_populating_database: "run populating_database empty_graph = Inr populated_graph"
  by code_simp

lemma run_same_name: "run same_name_doctors empty_graph = Inr same_name_graph"
  by code_simp

subsection \<open>Identifying properties and the reminder flag\<close>

lemma upsert_call_id_keys:
  "upsert_call x = Some (l, k, v, kvs) \<Longrightarrow> k' \<in> set id_keys \<Longrightarrow> k' \<notin> fst ` set kvs"
  by (cases x) (auto simp: id_keys_def)

lemma exec_id_keys:
  assumes "exec x g = Inr g'" "i < length (nodes g)" "k' \<in> set id_keys"
  shows "property (nodes g' ! i) k' = property (nodes g ! i) k'"
proof (cases "upsert_call x")
  case (Some c)
  obtain l k v kvs where c: "c = (l, k, v, kvs)" by (cases c)
  from Some c assms(1) have e: "merge_set_stmt l k v kvs g = Inr g'"
    using upsert_call_stmt by blast
  from Some c assms(3) have "k' \<notin> fst ` set kvs" using upsert_call_id_keys by blast
  with assms(2) merge_set_shape [OF e] show ?thesis by simp
next
  case None
  show ?thesis
  proof (cases "link_call x")
    case (Some c)
    obtain l1 k1 v1 t l2 k2 v2 where c: "c = (l1, k1, v1, t, l2, k2, v2)" by (cases c)
    from Some c assms(1) have e: "match_merge_rel_stmt l1 k1 v1 t l2 k2 v2 g = Inr g'"
      using link_call_stmt by blast
    with match_merge_rel_shape [OF e] show ?thesis by simp
  next
    case n: None
    have r: "k' \<notin> fst ` set [(''reminder_sent'', r)]" for r
      using assms(3) by (auto simp: id_keys_def)
    from other_call_stmt [OF None n assms(1)] assms(2) r show ?thesis
      by (auto dest!: match_set_shape)
  qed
qed

lemma exec_entity_of:
  assumes "exec x g = Inr g'" "i < length (nodes g)"
  shows "entity_of (nodes g' ! i) = entity_of (nodes g ! i)"
  using exec_shape [OF assms(1)] exec_id_keys [OF assms] assms(2)
  by (simp add: entity_of_def)

lemma exec_only_reminder:
  assumes "upsert_call x = None" "link_call x = None" "exec x g = Inr g'"
  shows "length (nodes g') = length (nodes g) \<and> rels g' = rels g \<and>
         (\<forall>i < length (nodes g). label (nodes g' ! i) = label (nodes g ! i) \<and>
            (\<forall>k. k \<noteq> ''reminder_sent'' \<longrightarrow>
               property (nodes g' ! i) k = property (nodes g ! i) k))"
  using other_call_stmt [OF assms]
  by (auto dest!: match_set_shape)

lemma same_but_reminder_property:
  assumes "same_but_reminder n n'" "k \<noteq> ''reminder_sent''"
  shows "property n' k = property n k"
proof -
  from assms(1) have "map_of (AList.delete ''reminder_sent'' (props n')) k =
      map_of (AList.delete ''reminder_sent'' (props n)) k"
    by (simp add: same_but_reminder_def)
  with assms(2) show ?thesis by (simp add: delete_conv' property_def)
qed

lemma flow_ok: "flow_keeps notebook_flow empty_graph"
  by code_simp

lemma flow_keeps_runs: "flow_keeps xs g \<Longrightarrow> \<exists>g'. run xs g = Inr g'"
  by (induction xs arbitrary: g) (auto split: sum.splits)

subsection \<open>Unique identifiers\<close>

lemma upsert_call_key: "upsert_call x = Some (l, k, v, kvs) \<Longrightarrow> k \<in> set id_keys"
  by (cases x) (auto simp: id_keys_def)

lemma match_nodes_nodes: "nodes g' = nodes g \<Longrightarrow> match_nodes l k v g' = match_nodes l k v g"
  by (simp add: match_nodes_def)

lemma merge_set_match_nodes:
  assumes m: "merge_set_stmt l0 k0 v0 kvs0 g = Inr g'"
    and k: "k \<notin> fst ` set kvs0" and k0: "k0 \<notin> fst ` set kvs0"
  shows "match_nodes l k v g' = match_nodes l k v g \<or>
         (match_nodes l k v g = [] \<and> match_nodes l k v g' = [length (nodes g)])"
proof -
  from m have v0: "v0 \<noteq> VNull" by (auto simp: merge_set_null)
  show ?thesis
  proof (cases "match_nodes l0 k0 v0 g = []")
    case True
    let ?n = "set_properties kvs0 (Node l0 [(k0, v0)])"
    from m True v0 have g': "g' = Graph (nodes g @ [?n]) (rels g)"
      by (simp add: merge_set_new)
    have a: "match_nodes l k v g' =
        match_nodes l k v g @ (if node_matches l k v ?n then [length (nodes g)] else [])"
      by (simp add: g' match_nodes_append_new match_nodes_rels)
    show ?thesis
    proof (cases "node_matches l k v ?n")
      case nm: True
      then have n: "label ?n = l \<and> cypher_eq (property ?n k) v"
        unfolding node_matches_def .
      have p: "property ?n k = (if k = k0 then v0 else VNull)"
        using k by (simp add: property_set_properties_other) (simp add: property_def)
      from n have ce: "cypher_eq (property ?n k) v" by blast
      from ce p have "cypher_eq (if k = k0 then v0 else VNull) v" by (simp only:)
      then have kv: "k = k0 \<and> cypher_eq v0 v" by (cases "k = k0") auto
      from n have "l = l0" by simp
      moreover have "match_nodes l0 k0 v g = match_nodes l0 k0 v0 g"
      proof -
        from kv have ce: "cypher_eq v v0" using cypher_eq_sym by blast
        show ?thesis unfolding match_nodes_def by (simp add: node_matches_eq [OF ce])
      qed
      ultimately have "match_nodes l k v g = []" using kv True by simp
      moreover from a nm have "match_nodes l k v g' = match_nodes l k v g @ [length (nodes g)]"
        by (simp only: if_True)
      ultimately show ?thesis by simp
    next
      case False
      with a show ?thesis by simp
    qed
  next
    case False
    with m v0 have "g' = fold (set_node kvs0) (match_nodes l0 k0 v0 g) g"
      by (simp add: merge_set_old)
    then show ?thesis by (simp add: match_nodes_fold_set_node k)
  qed
qed

lemma exec_match_nodes_upsert:
  assumes e: "exec y g = Inr g'" and k: "k \<in> set id_keys"
    and u: "upsert_call y = Some (l0, k0, v0, kvs0)"
  shows "match_nodes l k v g' = match_nodes l k v g \<or>
         (match_nodes l k v g = [] \<and> match_nodes l k v g' = [length (nodes g)])"
proof -
  have k0: "k0 \<notin> fst ` set kvs0"
    using upsert_call_exec [OF u] by simp
  have kn: "k \<notin> fst ` set kvs0" using u k by (rule upsert_call_id_keys)
  from u e have "merge_set_stmt l0 k0 v0 kvs0 g = Inr g'"
    using upsert_call_stmt by blast
  then show ?thesis using kn k0 by (rule merge_set_match_nodes)
qed

lemma exec_match_nodes_link:
  assumes e: "exec y g = Inr g'"
    and u: "link_call y = Some (l1, k1, v1, t, l2, k2, v2)"
  shows "match_nodes l k v g' = match_nodes l k v g"
proof -
  from u e have "match_merge_rel_stmt l1 k1 v1 t l2 k2 v2 g = Inr g'"
    using link_call_stmt by blast
  then have "nodes g' = nodes g" by (simp add: match_merge_rel_stmt_def) (auto)
  then show ?thesis by (rule match_nodes_nodes)
qed

lemma exec_match_nodes_other:
  assumes e: "exec y g = Inr g'" and k: "k \<in> set id_keys"
    and u: "upsert_call y = None" and n: "link_call y = None"
  shows "match_nodes l k v g' = match_nodes l k v g"
proof -
  from other_call_stmt [OF u n e] show ?thesis
  proof
    assume "g' = g"
    then show ?thesis by simp
  next
    assume "\<exists>a r. y = Set_appointment_reminder a r \<and>
       match_set_stmt Appointment ''appointment_id'' a [(''reminder_sent'', r)] g = Inr g'"
    then obtain a r0 where
      m: "match_set_stmt Appointment ''appointment_id'' a [(''reminder_sent'', r0)] g = Inr g'"
      by blast
    have r: "k \<notin> fst ` set [(''reminder_sent'', r0)]"
      using k by (auto simp: id_keys_def)
    from m have "g' = fold (set_node [(''reminder_sent'', r0)])
        (match_nodes Appointment ''appointment_id'' a g) g"
      by (simp add: match_set_stmt_def)
    then show ?thesis by (simp add: match_nodes_fold_set_node [OF r])
  qed
qed

lemma exec_match_nodes:
  assumes e: "exec y g = Inr g'" and k: "k \<in> set id_keys"
  shows "match_nodes l k v g' = match_nodes l k v g \<or>
         (match_nodes l k v g = [] \<and> match_nodes l k v g' = [length (nodes g)])"
proof (cases "upsert_call y")
  case (Some c)
  obtain l0 k0 v0 kvs0 where "c = (l0, k0, v0, kvs0)" by (cases c)
  with Some have "upsert_call y = Some (l0, k0, v0, kvs0)" by simp
  with e k show ?thesis by (rule exec_match_nodes_upsert)
next
  case None
  show ?thesis
  proof (cases "link_call y")
    case (Some c)
    obtain l1 k1 v1 t l2 k2 v2 where "c = (l1, k1, v1, t, l2, k2, v2)" by (cases c)
    with Some have "link_call y = Some (l1, k1, v1, t, l2, k2, v2)" by simp
    with e have "match_nodes l k v g' = match_nodes l k v g" by (rule exec_match_nodes_link)
    then show ?thesis ..
  next
    case n: None
    from e k None n have "match_nodes l k v g' = match_nodes l k v g"
      by (rule exec_match_nodes_other)
    then show ?thesis ..
  qed
qed

lemma exec_unique_ids: "exec y g = Inr g' \<Longrightarrow> unique_ids g \<Longrightarrow> unique_ids g'"
  unfolding unique_ids_def
proof (intro allI impI)
  fix l k v
  assume e: "exec y g = Inr g'"
    and u: "\<forall>l k v. k \<in> set id_keys \<longrightarrow> length (match_nodes l k v g) \<le> 1"
    and k: "k \<in> set id_keys"
  from u k have "length (match_nodes l k v g) \<le> 1" by blast
  with exec_match_nodes [OF e k, of l v] show "length (match_nodes l k v g') \<le> 1"
    by auto
qed

lemma run_unique_ids: "run xs g = Inr g' \<Longrightarrow> unique_ids g \<Longrightarrow> unique_ids g'"
  by (induction xs arbitrary: g) (auto split: sum.splits dest: exec_unique_ids)

lemma unique_ids_empty: "unique_ids empty_graph"
  by (simp add: unique_ids_def match_nodes_def empty_graph_def)

subsection \<open>The reads, in any order of the rows, and on the sample states\<close>

lemma run_two_appointments: "run two_appointments empty_graph = Inr two_appointments_graph"
  by code_simp

lemma get_patient_appointments_Inr:
  "get_patient_appointments ord g pid = Inr rows \<longleftrightarrow>
     encodable pid \<and> rows = ord (patient_appointment_rows g pid)"
  by (auto simp: get_patient_appointments_def tx_run_Inr)

lemma get_doctor_patients_Inr:
  "get_doctor_patients ord g did = Inr rows \<longleftrightarrow>
     encodable did \<and> rows = ord (doctor_patient_rows g did)"
  by (auto simp: get_doctor_patients_def tx_run_Inr)

lemma mem_ordered_patient_appointment_rows:
  "row_order ord \<Longrightarrow>
   x \<in> set (ord (patient_appointment_rows g pid)) \<longleftrightarrow>
     (\<exists>p a d. p < length (nodes g) \<and> node_matches Patient ''patient_id'' pid (nodes g ! p) \<and>
        Rel p HAS_APPOINTMENT a \<in> set (rels g) \<and> a < length (nodes g) \<and>
        Rel a WITH_DOCTOR d \<in> set (rels g) \<and> d < length (nodes g) \<and>
        x = (property (nodes g ! a) ''appointment_id'', property (nodes g ! a) ''date'',
             property (nodes g ! a) ''time'', property (nodes g ! d) ''name''))"
  by (simp add: row_order_set mem_patient_appointment_rows)

lemma mem_ordered_doctor_patient_rows:
  "row_order ord \<Longrightarrow>
   x \<in> set (ord (doctor_patient_rows g did)) \<longleftrightarrow>
     (\<exists>d a p. d < length (nodes g) \<and> node_matches Doctor ''doctor_id'' did (nodes g ! d) \<and>
        Rel a WITH_DOCTOR d \<in> set (rels g) \<and> a < length (nodes g) \<and>
        Rel p HAS_APPOINTMENT a \<in> set (rels g) \<and> p < length (nodes g) \<and>
        x = (property (nodes g ! p) ''patient_id'', property (nodes g ! p) ''name''))"
  by (simp add: row_order_set mem_doctor_patient_rows)

lemma doctor_patient_rows_order:
  "doctor_patient_rows g did =
     [(property (nodes g ! src r2) ''patient_id'', property (nodes g ! src r2) ''name'').
        d \<leftarrow> match_nodes Doctor ''doctor_id'' did g,
        r1 \<leftarrow> rels g,
        dst r1 = d \<and> rtype r1 = WITH_DOCTOR \<and> src r1 < length (nodes g),
        r2 \<leftarrow> rels g,
        dst r2 = src r1 \<and> rtype r2 = HAS_APPOINTMENT \<and> src r2 < length (nodes g)]"
  unfolding doctor_patient_rows_def expand_in_def
  by (simp add: concat_map_filtered map_concat_filtered concat_concat_filtered)

lemma encodable_simps [simp]:
  "encodable VNull" "encodable (VBool b)" "encodable (VStr s)" "encodable (VFloat f)"
  by (simp_all add: encodable_def)

lemma not_encodable_big: "\<not> encodable (VInt (2 ^ 63))"
  by (simp add: encodable_def)

lemma patient_appointment_rows_p001:
  "patient_appointment_rows p001_graph (VStr ''P001'') =
     [(VStr ''A001'', VStr ''2023-10-15'', VStr ''10:00'', VStr ''Dr. Emily Brown'')]"
  by code_simp

lemma doctor_patient_rows_p001:
  "doctor_patient_rows p001_graph (VStr ''D001'') = [(VStr ''P001'', VStr ''Alice Smith'')]"
  by code_simp

lemma workload_groups_populated:
  "workload_groups populated_graph = [(VStr ''Dr. Emily Brown'', 1), (VStr ''Dr. John Doe'', 1)]"
  by code_simp

section \<open>The claims\<close>

subsection \<open>C1\<close>

text \<open>
  Claim C1, as amended. For every patient id that the driver can encode and every order
  in which the engine lists the rows, \<open>get_patient_appointments\<close> returns exactly the rows
  (appointment id, date, time, doctor name) of the paths from a patient with that id over a
  \<^verbatim>\<open>HAS_APPOINTMENT\<close> and then a \<^verbatim>\<open>WITH_DOCTOR\<close> relationship, one row for every path. The
  list is empty when no patient has the id and when the patient has no appointment. After
  the setup of P001, A001 and D001 the result for P001 is the single row (A001, 2023-10-15,
  10:00, Dr. Emily Brown).
\<close>

theorem patient_appointments:
  assumes "row_order ord" and "encodable pid"
  shows
  "\<exists>rows. get_patient_appointments ord g pid = Inr rows \<and>
     (\<forall>x. x \<in> set rows \<longleftrightarrow>
        (\<exists>p a d. p < length (nodes g) \<and> node_matches Patient ''patient_id'' pid (nodes g ! p) \<and>
           Rel p HAS_APPOINTMENT a \<in> set (rels g) \<and> a < length (nodes g) \<and>
           Rel a WITH_DOCTOR d \<in> set (rels g) \<and> d < length (nodes g) \<and>
           x = (property (nodes g ! a) ''appointment_id'', property (nodes g ! a) ''date'',
                property (nodes g ! a) ''time'', property (nodes g ! d) ''name''))) \<and>
     mset rows =
       mset [(property (nodes g ! dst r1) ''appointment_id'', property (nodes g ! dst r1) ''date'',
              property (nodes g ! dst r1) ''time'', property (nodes g ! dst r2) ''name'').
               p \<leftarrow> match_nodes Patient ''patient_id'' pid g,
               r1 \<leftarrow> rels g,
               src r1 = p \<and> rtype r1 = HAS_APPOINTMENT \<and> dst r1 < length (nodes g),
               r2 \<leftarrow> rels g,
               src r2 = dst r1 \<and> rtype r2 = WITH_DOCTOR \<and> dst r2 < length (nodes g)] \<and>
     ((\<forall>p < length (nodes g). \<not> node_matches Patient ''patient_id'' pid (nodes g ! p)) \<longrightarrow>
        rows = []) \<and>
     ((\<forall>p a. p < length (nodes g) \<and> node_matches Patient ''patient_id'' pid (nodes g ! p) \<longrightarrow>
          Rel p HAS_APPOINTMENT a \<notin> set (rels g)) \<longrightarrow>
        rows = []) \<and>
     run p001_setup empty_graph = Inr p001_graph \<and>
     get_patient_appointments ord p001_graph (VStr ''P001'') =
       Inr [(VStr ''A001'', VStr ''2023-10-15'', VStr ''10:00'', VStr ''Dr. Emily Brown'')]"
proof -
  let ?rows = "ord (patient_appointment_rows g pid)"
  have r: "get_patient_appointments ord g pid = Inr ?rows"
    using assms(2) by (simp add: get_patient_appointments_Inr)
  note m = mem_ordered_patient_appointment_rows [OF assms(1), of _ g pid]
  have o: "mset ?rows =
     mset [(property (nodes g ! dst r1) ''appointment_id'', property (nodes g ! dst r1) ''date'',
            property (nodes g ! dst r1) ''time'', property (nodes g ! dst r2) ''name'').
             p \<leftarrow> match_nodes Patient ''patient_id'' pid g,
             r1 \<leftarrow> rels g,
             src r1 = p \<and> rtype r1 = HAS_APPOINTMENT \<and> dst r1 < length (nodes g),
             r2 \<leftarrow> rels g,
             src r2 = dst r1 \<and> rtype r2 = WITH_DOCTOR \<and> dst r2 < length (nodes g)]"
    using assms(1)
    unfolding patient_appointment_rows_order [symmetric] row_order_def
    by blast
  have e1: "(\<forall>p < length (nodes g). \<not> node_matches Patient ''patient_id'' pid (nodes g ! p)) \<longrightarrow>
      ?rows = []"
  proof
    assume "\<forall>p < length (nodes g). \<not> node_matches Patient ''patient_id'' pid (nodes g ! p)"
    then have "\<And>x. x \<notin> set ?rows"
      unfolding m by blast
    then show "?rows = []"
      by (cases ?rows) auto
  qed
  have e2: "(\<forall>p a. p < length (nodes g) \<and> node_matches Patient ''patient_id'' pid (nodes g ! p) \<longrightarrow>
        Rel p HAS_APPOINTMENT a \<notin> set (rels g)) \<longrightarrow>
      ?rows = []"
  proof
    assume "\<forall>p a. p < length (nodes g) \<and> node_matches Patient ''patient_id'' pid (nodes g ! p) \<longrightarrow>
        Rel p HAS_APPOINTMENT a \<notin> set (rels g)"
    then have "\<And>x. x \<notin> set ?rows"
      unfolding m by blast
    then show "?rows = []"
      by (cases ?rows) auto
  qed
  have c: "get_patient_appointments ord p001_graph (VStr ''P001'') =
     Inr [(VStr ''A001'', VStr ''2023-10-15'', VStr ''10:00'', VStr ''Dr. Emily Brown'')]"
    by (simp add: get_patient_appointments_Inr patient_appointment_rows_p001
        row_order_single [OF assms(1)])
  show ?thesis
    apply (rule exI [of _ ?rows])
    apply (intro conjI allI)
          apply (rule r)
         apply (rule m)
        apply (rule o)
       apply (rule e1)
      apply (rule e2)
     apply (rule run_p001)
    apply (rule c)
    done
qed

theorem patient_appointments_witness:
  "encodable (VStr ''P001'') \<and> encodable (VStr ''P999'') \<and>
   get_patient_appointments id p001_graph (VStr ''P001'') =
     Inr [(VStr ''A001'', VStr ''2023-10-15'', VStr ''10:00'', VStr ''Dr. Emily Brown'')] \<and>
   match_nodes Patient ''patient_id'' (VStr ''P999'') p001_graph = [] \<and>
   get_patient_appointments id p001_graph (VStr ''P999'') = Inr [] \<and>
   match_nodes Patient ''patient_id'' (VStr ''P001'') (Graph (nodes p001_graph) []) = [0] \<and>
   get_patient_appointments id (Graph (nodes p001_graph) []) (VStr ''P001'') = Inr []"
proof -
  let ?row = "(VStr ''A001'', VStr ''2023-10-15'', VStr ''10:00'', VStr ''Dr. Emily Brown'')"
  have e1: "encodable (VStr ''P001'')" and e9: "encodable (VStr ''P999'')" by simp_all
  note t = patient_appointments [OF row_order_id]
  have 1: "get_patient_appointments id p001_graph (VStr ''P001'') = Inr [?row]"
    using t [OF e1, of p001_graph] by blast
  have m: "match_nodes Patient ''patient_id'' (VStr ''P999'') p001_graph = []"
    by code_simp
  have "set (match_nodes Patient ''patient_id'' (VStr ''P999'') p001_graph) = {}"
    by (simp add: m)
  then have n: "\<forall>p < length (nodes p001_graph).
      \<not> node_matches Patient ''patient_id'' (VStr ''P999'') (nodes p001_graph ! p)"
    unfolding set_match_nodes by blast
  from t [OF e9, of p001_graph] obtain rows where
    "get_patient_appointments id p001_graph (VStr ''P999'') = Inr rows"
    "(\<forall>p < length (nodes p001_graph).
        \<not> node_matches Patient ''patient_id'' (VStr ''P999'') (nodes p001_graph ! p)) \<longrightarrow> rows = []"
    by blast
  with n have 2: "get_patient_appointments id p001_graph (VStr ''P999'') = Inr []" by blast
  let ?g = "Graph (nodes p001_graph) []"
  have m0: "match_nodes Patient ''patient_id'' (VStr ''P001'') ?g = [0]"
    by code_simp
  have n0: "\<forall>p a. p < length (nodes ?g) \<and> node_matches Patient ''patient_id'' (VStr ''P001'') (nodes ?g ! p) \<longrightarrow>
        Rel p HAS_APPOINTMENT a \<notin> set (rels ?g)"
    by simp
  from t [OF e1, of ?g] obtain rows0 where
    "get_patient_appointments id ?g (VStr ''P001'') = Inr rows0"
    "(\<forall>p a. p < length (nodes ?g) \<and> node_matches Patient ''patient_id'' (VStr ''P001'') (nodes ?g ! p) \<longrightarrow>
        Rel p HAS_APPOINTMENT a \<notin> set (rels ?g)) \<longrightarrow> rows0 = []"
    by blast
  with n0 have 3: "get_patient_appointments id ?g (VStr ''P001'') = Inr []" by blast
  from e1 e9 1 m 2 m0 3 show ?thesis by (intro conjI)
qed

text \<open>
  Claim C1 as stated fails in two ways. The query has no \<^verbatim>\<open>ORDER BY\<close>: with an engine that
  lists the rows newest first, the patient linked to A001 and then to A002 gets A002 before
  A001, which is not the order of insertion. And for a patient id that the driver cannot
  encode the call raises instead of returning the empty list.
\<close>

theorem patient_appointments_counterexample:
  "row_order (rev :: (val \<times> val \<times> val \<times> val) list \<Rightarrow> (val \<times> val \<times> val \<times> val) list) \<and>
   run two_appointments empty_graph = Inr two_appointments_graph \<and>
   get_patient_appointments rev two_appointments_graph (VStr ''P001'') =
     Inr [(VStr ''A002'', VStr ''2023-10-16'', VStr ''14:00'', VStr ''Dr. Emily Brown''),
          (VStr ''A001'', VStr ''2023-10-15'', VStr ''10:00'', VStr ''Dr. Emily Brown'')] \<and>
   get_patient_appointments rev two_appointments_graph (VInt (2 ^ 63)) = Inl OverflowError"
proof -
  have 1: "get_patient_appointments rev two_appointments_graph (VStr ''P001'') =
     Inr [(VStr ''A002'', VStr ''2023-10-16'', VStr ''14:00'', VStr ''Dr. Emily Brown''),
          (VStr ''A001'', VStr ''2023-10-15'', VStr ''10:00'', VStr ''Dr. Emily Brown'')]"
    by code_simp
  have 2: "get_patient_appointments rev two_appointments_graph (VInt (2 ^ 63)) = Inl OverflowError"
    by (simp add: get_patient_appointments_def tx_run_def encodable_def)
  from row_order_rev run_two_appointments 1 2 show ?thesis by (intro conjI)
qed

subsection \<open>C2\<close>

text \<open>
  Claim C2, as amended. Each of the four linking functions, called with two ids that the
  driver can encode, matches both endpoints and merges the relationship between every pair
  of matches. The call returns a graph (not an error), never touches the nodes, and adds
  exactly the relationships between the matched endpoints; when either endpoint has no
  match the graph is returned as it was.
\<close>

theorem link_entities:
  assumes "link_call x = Some (l1, k1, v1, t, l2, k2, v2)"
    and "encodable v1" and "encodable v2"
  shows "\<exists>g'. exec x g = Inr g' \<and> nodes g' = nodes g \<and>
           set (rels g') = set (rels g) \<union>
             {Rel p t a | p a. p \<in> set (match_nodes l1 k1 v1 g) \<and> a \<in> set (match_nodes l2 k2 v2 g)} \<and>
           (match_nodes l1 k1 v1 g = [] \<or> match_nodes l2 k2 v2 g = [] \<longrightarrow> g' = g)"
proof -
  have "exec x g = match_merge_rel l1 k1 v1 t l2 k2 v2 g"
    using assms(1) by (rule link_call_exec)
  with assms(2,3) have e: "exec x g = match_merge_rel_stmt l1 k1 v1 t l2 k2 v2 g"
    by (simp add: match_merge_rel_def tx_run_encodable)
  show ?thesis
    unfolding e match_merge_rel_stmt_def
    by (auto simp: set_rels_fold_merge_rel)
qed

theorem link_entities_witness:
  "encodable (VStr ''A001'') \<and> encodable (VStr ''D001'') \<and> encodable (VStr ''D009'') \<and>
   link_call (Link_appointment_doctor (VStr ''A001'') (VStr ''D001'')) =
     Some (Appointment, ''appointment_id'', VStr ''A001'', WITH_DOCTOR, Doctor, ''doctor_id'', VStr ''D001'') \<and>
   (\<exists>g'. exec (Link_appointment_doctor (VStr ''A001'') (VStr ''D001''))
            (Graph (nodes p001_graph) [Rel 0 HAS_APPOINTMENT 1]) = Inr g' \<and>
         nodes g' = nodes p001_graph \<and>
         set (rels g') = {Rel 0 HAS_APPOINTMENT 1, Rel 1 WITH_DOCTOR 2}) \<and>
   link_call (Link_appointment_doctor (VStr ''A001'') (VStr ''D009'')) =
     Some (Appointment, ''appointment_id'', VStr ''A001'', WITH_DOCTOR, Doctor, ''doctor_id'', VStr ''D009'') \<and>
   match_nodes Doctor ''doctor_id'' (VStr ''D009'') p001_graph = [] \<and>
   exec (Link_appointment_doctor (VStr ''A001'') (VStr ''D009'')) p001_graph = Inr p001_graph"
proof -
  let ?g = "Graph (nodes p001_graph) [Rel 0 HAS_APPOINTMENT 1]"
  have c1: "link_call (Link_appointment_doctor (VStr ''A001'') (VStr ''D001'')) =
     Some (Appointment, ''appointment_id'', VStr ''A001'', WITH_DOCTOR, Doctor, ''doctor_id'', VStr ''D001'')"
    by simp
  have c2: "link_call (Link_appointment_doctor (VStr ''A001'') (VStr ''D009'')) =
     Some (Appointment, ''appointment_id'', VStr ''A001'', WITH_DOCTOR, Doctor, ''doctor_id'', VStr ''D009'')"
    by simp
  have ea: "encodable (VStr ''A001'')" and ed: "encodable (VStr ''D001'')"
    and e9: "encodable (VStr ''D009'')"
    by simp_all
  have ma: "match_nodes Appointment ''appointment_id'' (VStr ''A001'') ?g = [1]"
    by code_simp
  have md: "match_nodes Doctor ''doctor_id'' (VStr ''D001'') ?g = [2]"
    by code_simp
  have m9: "match_nodes Doctor ''doctor_id'' (VStr ''D009'') p001_graph = []"
    by code_simp
  from link_entities [OF c1 ea ed, of ?g] obtain g' where
    g': "exec (Link_appointment_doctor (VStr ''A001'') (VStr ''D001'')) ?g = Inr g'"
      "nodes g' = nodes ?g"
      "set (rels g') = set (rels ?g) \<union>
         {Rel p WITH_DOCTOR a | p a.
            p \<in> set (match_nodes Appointment ''appointment_id'' (VStr ''A001'') ?g) \<and>
            a \<in> set (match_nodes Doctor ''doctor_id'' (VStr ''D001'') ?g)}"
    by blast
  have "{Rel p WITH_DOCTOR a | p a. p \<in> set [1::nat] \<and> a \<in> set [2::nat]} = {Rel 1 WITH_DOCTOR 2}"
    by auto
  with g'(3) have "set (rels g') = {Rel 0 HAS_APPOINTMENT 1, Rel 1 WITH_DOCTOR 2}"
    unfolding ma md by (simp add: insert_commute)
  with g'(1,2) have 1: "\<exists>g'. exec (Link_appointment_doctor (VStr ''A001'') (VStr ''D001'')) ?g = Inr g' \<and>
         nodes g' = nodes p001_graph \<and>
         set (rels g') = {Rel 0 HAS_APPOINTMENT 1, Rel 1 WITH_DOCTOR 2}"
    by simp
  from link_entities [OF c2 ea e9, of p001_graph] m9
  have 2: "exec (Link_appointment_doctor (VStr ''A001'') (VStr ''D009'')) p001_graph = Inr p001_graph"
    by blast
  from ea ed e9 c1 1 c2 m9 2 show ?thesis by (intro conjI)
qed

text \<open>
  Claim C2 as stated fails at an id that the driver cannot encode: no patient has that
  id, and the call raises, while the claim has it complete without an error for every pair
  of ids.
\<close>

theorem link_entities_counterexample:
  "match_nodes Patient ''patient_id'' (VInt (2 ^ 63)) p001_graph = [] \<and>
   exec (Link_patient_appointment (VInt (2 ^ 63)) (VStr ''A001'')) p001_graph = Inl OverflowError"
proof -
  have 1: "match_nodes Patient ''patient_id'' (VInt (2 ^ 63)) p001_graph = []"
    by code_simp
  have 2: "exec (Link_patient_appointment (VInt (2 ^ 63)) (VStr ''A001'')) p001_graph =
      Inl OverflowError"
    by (simp add: link_patient_appointment_def match_merge_rel_def tx_run_def encodable_def)
  from 1 2 show ?thesis by (intro conjI)
qed

subsection \<open>C3\<close>

text \<open>
  Claim C3, as amended. Each of the five node-creating functions is idempotent on
  arguments that the driver can encode and an id that equals itself (one that is neither
  null nor a float that is not a number): the call succeeds and running it again on its own
  result changes nothing. The call never adds a second node with the label and id: the
  number of such nodes becomes one when it was zero and stays what it was otherwise, and in
  every graph that the notebook's functions build from the empty one it is exactly one
  afterwards.
\<close>

theorem upsert_idempotent:
  assumes "upsert_call x = Some (l, k, v, kvs)" and "cypher_eq v v"
    and "list_all encodable (v # map snd kvs)"
  shows "\<exists>g1. exec x g = Inr g1 \<and> exec x g1 = Inr g1 \<and>
           length (match_nodes l k v g1) = max 1 (length (match_nodes l k v g)) \<and>
           (run ops empty_graph = Inr g \<longrightarrow> length (match_nodes l k v g1) = 1)"
proof -
  from assms(1) have "\<And>h. exec x h = merge_set l k v kvs h"
    and k: "k \<notin> fst ` set kvs" and d: "distinct (map fst kvs)"
    using upsert_call_exec by blast+
  with assms(3) have e: "\<And>h. exec x h = merge_set_stmt l k v kvs h"
    by (simp add: merge_set_def tx_run_encodable)
  from assms(2) have v: "v \<noteq> VNull" by auto
  obtain g1 where g1: "merge_set_stmt l k v kvs g = Inr g1"
    using v by (cases "match_nodes l k v g = []") (simp_all add: merge_set_new merge_set_old)
  note c = merge_set_count [OF k assms(2) g1]
  have "run ops empty_graph = Inr g \<longrightarrow> length (match_nodes l k v g1) = 1"
  proof
    assume "run ops empty_graph = Inr g"
    then have "unique_ids g" using run_unique_ids unique_ids_empty by blast
    with assms(1) have "length (match_nodes l k v g) \<le> 1"
      using upsert_call_key unfolding unique_ids_def by blast
    with c show "length (match_nodes l k v g1) = 1" by simp
  qed
  with g1 merge_set_idem [OF k d assms(2) g1] c show ?thesis by (simp add: e)
qed

theorem upsert_idempotent_witness:
  "upsert_call (Create_patient (VStr ''P001'') (VStr ''Alice Smith'') (VInt 30) (VStr ''555-1234'')) =
     Some (Patient, ''patient_id'', VStr ''P001'',
           [(''name'', VStr ''Alice Smith''), (''age'', VInt 30), (''contact'', VStr ''555-1234'')]) \<and>
   cypher_eq (VStr ''P001'') (VStr ''P001'') \<and>
   list_all encodable [VStr ''P001'', VStr ''Alice Smith'', VInt 30, VStr ''555-1234''] \<and>
   run p001_setup empty_graph = Inr p001_graph \<and>
   (\<exists>g1. exec (Create_patient (VStr ''P001'') (VStr ''Alice Smith'') (VInt 30) (VStr ''555-1234''))
            p001_graph = Inr g1 \<and>
         exec (Create_patient (VStr ''P001'') (VStr ''Alice Smith'') (VInt 30) (VStr ''555-1234''))
            g1 = Inr g1 \<and>
         length (match_nodes Patient ''patient_id'' (VStr ''P001'') g1) = 1)"
proof -
  have c: "upsert_call (Create_patient (VStr ''P001'') (VStr ''Alice Smith'') (VInt 30) (VStr ''555-1234'')) =
     Some (Patient, ''patient_id'', VStr ''P001'',
           [(''name'', VStr ''Alice Smith''), (''age'', VInt 30), (''contact'', VStr ''555-1234'')])"
    by simp
  have v: "cypher_eq (VStr ''P001'') (VStr ''P001'')" by (simp add: cypher_eq_def)
  have n: "list_all encodable [VStr ''P001'', VStr ''Alice Smith'', VInt 30, VStr ''555-1234'']"
    by (simp add: encodable_def)
  then have n': "list_all encodable (VStr ''P001'' #
      map snd [(''name'', VStr ''Alice Smith''), (''age'', VInt 30), (''contact'', VStr ''555-1234'')])"
    by simp
  from upsert_idempotent [OF c v n', of p001_graph p001_setup] run_p001
  have "\<exists>g1. exec (Create_patient (VStr ''P001'') (VStr ''Alice Smith'') (VInt 30) (VStr ''555-1234''))
            p001_graph = Inr g1 \<and>
         exec (Create_patient (VStr ''P001'') (VStr ''Alice Smith'') (VInt 30) (VStr ''555-1234''))
            g1 = Inr g1 \<and>
         length (match_nodes Patient ''patient_id'' (VStr ''P001'') g1) = 1"
    by blast
  with c v n run_p001 show ?thesis by (intro conjI)
qed

text \<open>
  Claim C3 as stated fails at arguments on which the call raises: an attribute that the
  driver cannot encode, and the id \<^verbatim>\<open>None\<close>. Neither call yields an entity.
\<close>

theorem upsert_idempotent_counterexample:
  "exec (Create_patient (VStr ''P001'') (VStr ''Alice Smith'') (VInt (2 ^ 63)) (VStr ''555-1234''))
     empty_graph = Inl OverflowError \<and>
   exec (Create_patient VNull (VStr ''Alice Smith'') (VInt 30) (VStr ''555-1234''))
     empty_graph = Inl (MergeNullProperty ''patient_id'')"
proof -
  have 1: "exec (Create_patient (VStr ''P001'') (VStr ''Alice Smith'') (VInt (2 ^ 63)) (VStr ''555-1234''))
     empty_graph = Inl OverflowError"
    by (simp add: create_patient_def merge_set_def tx_run_def encodable_def)
  have 2: "exec (Create_patient VNull (VStr ''Alice Smith'') (VInt 30) (VStr ''555-1234''))
     empty_graph = Inl (MergeNullProperty ''patient_id'')"
    by (simp add: create_patient_def merge_set_def tx_run_def encodable_def merge_set_null)
  from 1 2 show ?thesis by (intro conjI)
qed

subsection \<open>C4\<close>

text \<open>
  Claim C4. \<open>get_doctor_workload\<close> is to return one pair for every doctor with an
  appointment. The query returns \<^verbatim>\<open>d.name\<close> and \<^verbatim>\<open>COUNT(a)\<close>, so the rows are grouped by
  the name and not by the doctor. Evaluated on two doctors D001 and D002 that are both
  named Dr. Smith and have one appointment each, the function returns the single row
  (Dr. Smith, 2) where the claim has two rows with count 1.
\<close>

theorem doctor_workload_same_name:
  "run same_name_doctors empty_graph = Inr same_name_graph \<and>
   match_label Doctor same_name_graph = [0, 1] \<and>
   property (nodes same_name_graph ! 0) ''doctor_id'' = VStr ''D001'' \<and>
   property (nodes same_name_graph ! 1) ''doctor_id'' = VStr ''D002'' \<and>
   expand_in same_name_graph 0 WITH_DOCTOR = [2] \<and>
   expand_in same_name_graph 1 WITH_DOCTOR = [3] \<and>
   get_doctor_workload id same_name_graph = [(VStr ''Dr. Smith'', 2)]"
proof -
  have 1: "match_label Doctor same_name_graph = [0, 1]" by code_simp
  have 2: "expand_in same_name_graph 0 WITH_DOCTOR = [2]" by code_simp
  have 3: "expand_in same_name_graph 1 WITH_DOCTOR = [3]" by code_simp
  have 4: "get_doctor_workload id same_name_graph = [(VStr ''Dr. Smith'', 2)]" by code_simp
  have 5: "property (nodes same_name_graph ! 0) ''doctor_id'' = VStr ''D001''" by code_simp
  have 6: "property (nodes same_name_graph ! 1) ''doctor_id'' = VStr ''D002''" by code_simp
  from run_same_name 1 5 6 2 3 4 show ?thesis by (intro conjI)
qed

subsection \<open>C5\<close>

text \<open>
  Claim C5, as amended. For every doctor id that the driver can encode and every order in
  which the engine lists the rows, \<open>get_doctor_patients\<close> returns exactly the rows (patient
  id, name) of the nodes that reach a doctor with that id over a \<^verbatim>\<open>HAS_APPOINTMENT\<close> and
  then a \<^verbatim>\<open>WITH_DOCTOR\<close> relationship, one row for every such path. In every graph that the
  notebook's functions build from the empty one these nodes are patients and the nodes in
  between are appointments. After the setup of P001, A001 and D001 the result for D001 is
  the single row (P001, Alice Smith).
\<close>

theorem doctor_patients:
  assumes "row_order ord" and "encodable did"
  shows
  "\<exists>rows. get_doctor_patients ord g did = Inr rows \<and>
     (\<forall>x. x \<in> set rows \<longleftrightarrow>
        (\<exists>d a p. d < length (nodes g) \<and> node_matches Doctor ''doctor_id'' did (nodes g ! d) \<and>
           Rel a WITH_DOCTOR d \<in> set (rels g) \<and> a < length (nodes g) \<and>
           Rel p HAS_APPOINTMENT a \<in> set (rels g) \<and> p < length (nodes g) \<and>
           x = (property (nodes g ! p) ''patient_id'', property (nodes g ! p) ''name''))) \<and>
     mset rows =
       mset [(property (nodes g ! src r2) ''patient_id'', property (nodes g ! src r2) ''name'').
               d \<leftarrow> match_nodes Doctor ''doctor_id'' did g,
               r1 \<leftarrow> rels g,
               dst r1 = d \<and> rtype r1 = WITH_DOCTOR \<and> src r1 < length (nodes g),
               r2 \<leftarrow> rels g,
               dst r2 = src r1 \<and> rtype r2 = HAS_APPOINTMENT \<and> src r2 < length (nodes g)] \<and>
     (run ops empty_graph = Inr g \<longrightarrow>
        (\<forall>d a p. Rel a WITH_DOCTOR d \<in> set (rels g) \<and> Rel p HAS_APPOINTMENT a \<in> set (rels g) \<longrightarrow>
           p < length (nodes g) \<and> a < length (nodes g) \<and> d < length (nodes g) \<and>
           label (nodes g ! p) = Patient \<and> label (nodes g ! a) = Appointment \<and>
           label (nodes g ! d) = Doctor)) \<and>
     run p001_setup empty_graph = Inr p001_graph \<and>
     get_doctor_patients ord p001_graph (VStr ''D001'') = Inr [(VStr ''P001'', VStr ''Alice Smith'')]"
proof -
  let ?rows = "ord (doctor_patient_rows g did)"
  have r: "get_doctor_patients ord g did = Inr ?rows"
    using assms(2) by (simp add: get_doctor_patients_Inr)
  note m = mem_ordered_doctor_patient_rows [OF assms(1), of _ g did]
  have o: "mset ?rows =
       mset [(property (nodes g ! src r2) ''patient_id'', property (nodes g ! src r2) ''name'').
               d \<leftarrow> match_nodes Doctor ''doctor_id'' did g,
               r1 \<leftarrow> rels g,
               dst r1 = d \<and> rtype r1 = WITH_DOCTOR \<and> src r1 < length (nodes g),
               r2 \<leftarrow> rels g,
               dst r2 = src r1 \<and> rtype r2 = HAS_APPOINTMENT \<and> src r2 < length (nodes g)]"
    using assms(1)
    unfolding doctor_patient_rows_order [symmetric] row_order_def
    by blast
  have t: "run ops empty_graph = Inr g \<longrightarrow>
      (\<forall>d a p. Rel a WITH_DOCTOR d \<in> set (rels g) \<and> Rel p HAS_APPOINTMENT a \<in> set (rels g) \<longrightarrow>
         p < length (nodes g) \<and> a < length (nodes g) \<and> d < length (nodes g) \<and>
         label (nodes g ! p) = Patient \<and> label (nodes g ! a) = Appointment \<and>
         label (nodes g ! d) = Doctor)"
  proof
    assume "run ops empty_graph = Inr g"
    then have w: "well_typed g" using run_well_typed well_typed_empty by blast
    show "\<forall>d a p. Rel a WITH_DOCTOR d \<in> set (rels g) \<and> Rel p HAS_APPOINTMENT a \<in> set (rels g) \<longrightarrow>
         p < length (nodes g) \<and> a < length (nodes g) \<and> d < length (nodes g) \<and>
         label (nodes g ! p) = Patient \<and> label (nodes g ! a) = Appointment \<and>
         label (nodes g ! d) = Doctor"
    proof (intro allI impI)
      fix d a p
      assume h: "Rel a WITH_DOCTOR d \<in> set (rels g) \<and> Rel p HAS_APPOINTMENT a \<in> set (rels g)"
      from w h have "src (Rel a WITH_DOCTOR d) < length (nodes g) \<and>
          dst (Rel a WITH_DOCTOR d) < length (nodes g) \<and>
          label (nodes g ! src (Rel a WITH_DOCTOR d)) = rel_from (rtype (Rel a WITH_DOCTOR d)) \<and>
          label (nodes g ! dst (Rel a WITH_DOCTOR d)) = rel_to (rtype (Rel a WITH_DOCTOR d))"
        unfolding well_typed_def by blast
      moreover from w h have "src (Rel p HAS_APPOINTMENT a) < length (nodes g) \<and>
          label (nodes g ! src (Rel p HAS_APPOINTMENT a)) = rel_from (rtype (Rel p HAS_APPOINTMENT a))"
        unfolding well_typed_def by blast
      ultimately show "p < length (nodes g) \<and> a < length (nodes g) \<and> d < length (nodes g) \<and>
         label (nodes g ! p) = Patient \<and> label (nodes g ! a) = Appointment \<and>
         label (nodes g ! d) = Doctor"
        by simp
    qed
  qed
  have c: "get_doctor_patients ord p001_graph (VStr ''D001'') = Inr [(VStr ''P001'', VStr ''Alice Smith'')]"
    by (simp add: get_doctor_patients_Inr doctor_patient_rows_p001 row_order_single [OF assms(1)])
  show ?thesis
    apply (rule exI [of _ ?rows])
    apply (intro conjI allI)
         apply (rule r)
        apply (rule m)
       apply (rule o)
      apply (rule t)
     apply (rule run_p001)
    apply (rule c)
    done
qed

theorem doctor_patients_witness:
  "encodable (VStr ''D001'') \<and>
   run p001_setup empty_graph = Inr p001_graph \<and>
   Rel 1 WITH_DOCTOR 2 \<in> set (rels p001_graph) \<and>
   Rel 0 HAS_APPOINTMENT 1 \<in> set (rels p001_graph) \<and>
   label (nodes p001_graph ! 0) = Patient \<and>
   label (nodes p001_graph ! 1) = Appointment \<and>
   label (nodes p001_graph ! 2) = Doctor \<and>
   get_doctor_patients id p001_graph (VStr ''D001'') = Inr [(VStr ''P001'', VStr ''Alice Smith'')]"
proof -
  have en: "encodable (VStr ''D001'')" by simp
  from doctor_patients [OF row_order_id en, of p001_graph p001_setup] obtain rows where
    t: "run p001_setup empty_graph = Inr p001_graph \<longrightarrow>
        (\<forall>d a p. Rel a WITH_DOCTOR d \<in> set (rels p001_graph) \<and>
            Rel p HAS_APPOINTMENT a \<in> set (rels p001_graph) \<longrightarrow>
           p < length (nodes p001_graph) \<and> a < length (nodes p001_graph) \<and>
           d < length (nodes p001_graph) \<and>
           label (nodes p001_graph ! p) = Patient \<and> label (nodes p001_graph ! a) = Appointment \<and>
           label (nodes p001_graph ! d) = Doctor)"
    and r: "run p001_setup empty_graph = Inr p001_graph"
    and c: "get_doctor_patients id p001_graph (VStr ''D001'') = Inr [(VStr ''P001'', VStr ''Alice Smith'')]"
    by blast
  have e: "Rel 1 WITH_DOCTOR 2 \<in> set (rels p001_graph)"
    "Rel 0 HAS_APPOINTMENT 1 \<in> set (rels p001_graph)"
    by (simp_all add: p001_graph_def)
  from t r e have l: "label (nodes p001_graph ! 0) = Patient \<and>
      label (nodes p001_graph ! 1) = Appointment \<and> label (nodes p001_graph ! 2) = Doctor"
    by blast
  from en r e l c show ?thesis by simp
qed

text \<open>
  Claim C5 as stated fails at a doctor id that the driver cannot encode: the call raises
  and returns no rows.
\<close>

theorem doctor_patients_counterexample:
  "get_doctor_patients id p001_graph (VInt (2 ^ 63)) = Inl OverflowError"
  by (simp add: get_doctor_patients_def tx_run_def encodable_def)

subsection \<open>C6\<close>

text \<open>
  Claim C6, as amended. \<open>set_appointment_reminder\<close> with an appointment id that the driver
  can encode and a boolean does not raise; every appointment with the given id reads the
  new flag afterwards and keeps every other property, every other node is left as it is,
  and when no appointment has that id the graph is unchanged.
\<close>

theorem reminder_update:
  assumes "encodable a"
  shows "\<exists>g'. set_appointment_reminder g a (VBool b) = Inr g' \<and>
     length (nodes g') = length (nodes g) \<and> rels g' = rels g \<and>
     (\<forall>i < length (nodes g).
        if node_matches Appointment ''appointment_id'' a (nodes g ! i)
        then node_matches Appointment ''appointment_id'' a (nodes g' ! i) \<and>
             property (nodes g' ! i) ''reminder_sent'' = VBool b \<and>
             (\<forall>k. k \<noteq> ''reminder_sent'' \<longrightarrow> property (nodes g' ! i) k = property (nodes g ! i) k)
        else nodes g' ! i = nodes g ! i) \<and>
     (match_nodes Appointment ''appointment_id'' a g = [] \<longrightarrow> g' = g)"
proof -
  let ?ps = "match_nodes Appointment ''appointment_id'' a g"
  let ?kvs = "[(''reminder_sent'', VBool b)]"
  let ?g' = "fold (set_node ?kvs) ?ps g"
  have e: "set_appointment_reminder g a (VBool b) = Inr ?g'"
    using assms
    by (simp add: set_appointment_reminder_def match_set_def match_set_stmt_def tx_run_encodable)
  have n: "\<And>i. i < length (nodes g) \<Longrightarrow>
      nodes ?g' ! i = (if i \<in> set ?ps then set_properties ?kvs (nodes g ! i) else nodes g ! i)"
    by (simp add: nth_fold_set_node)
  have m: "\<And>n. node_matches Appointment ''appointment_id'' a (set_properties ?kvs n) =
      node_matches Appointment ''appointment_id'' a n"
    by (rule node_matches_set_properties) simp
  have "\<forall>i < length (nodes g).
        if node_matches Appointment ''appointment_id'' a (nodes g ! i)
        then node_matches Appointment ''appointment_id'' a (nodes ?g' ! i) \<and>
             property (nodes ?g' ! i) ''reminder_sent'' = VBool b \<and>
             (\<forall>k. k \<noteq> ''reminder_sent'' \<longrightarrow> property (nodes ?g' ! i) k = property (nodes g ! i) k)
        else nodes ?g' ! i = nodes g ! i"
    using m by (simp add: n set_match_nodes property_set_property)
  moreover have "?ps = [] \<longrightarrow> ?g' = g" by simp
  ultimately show ?thesis unfolding e by simp
qed

theorem reminder_update_witness:
  "encodable (VStr ''A001'') \<and> encodable (VStr ''A404'') \<and>
   1 < length (nodes p001_graph) \<and>
   node_matches Appointment ''appointment_id'' (VStr ''A001'') (nodes p001_graph ! 1) \<and>
   set_appointment_reminder p001_graph (VStr ''A001'') (VBool False) = Inr reminded_graph \<and>
   property (nodes reminded_graph ! 1) ''reminder_sent'' = VBool False \<and>
   match_nodes Appointment ''appointment_id'' (VStr ''A404'') p001_graph = [] \<and>
   set_appointment_reminder p001_graph (VStr ''A404'') (VBool True) = Inr p001_graph"
proof -
  have e1: "encodable (VStr ''A001'')" and e4: "encodable (VStr ''A404'')"
    by simp_all
  have l: "1 < length (nodes p001_graph)"
    by (simp add: p001_graph_def)
  have nm: "node_matches Appointment ''appointment_id'' (VStr ''A001'') (nodes p001_graph ! 1)"
    by (simp add: p001_graph_def node_matches_def property_def cypher_eq_def)
  have m0: "match_nodes Appointment ''appointment_id'' (VStr ''A404'') p001_graph = []"
    by code_simp
  have e: "set_appointment_reminder p001_graph (VStr ''A001'') (VBool False) = Inr reminded_graph"
    by code_simp
  from reminder_update [OF e1, of p001_graph False] obtain g' where
    g': "set_appointment_reminder p001_graph (VStr ''A001'') (VBool False) = Inr g'"
    and a: "\<forall>i < length (nodes p001_graph).
        if node_matches Appointment ''appointment_id'' (VStr ''A001'') (nodes p001_graph ! i)
        then node_matches Appointment ''appointment_id'' (VStr ''A001'') (nodes g' ! i) \<and>
             property (nodes g' ! i) ''reminder_sent'' = VBool False \<and>
             (\<forall>k. k \<noteq> ''reminder_sent'' \<longrightarrow> property (nodes g' ! i) k = property (nodes p001_graph ! i) k)
        else nodes g' ! i = nodes p001_graph ! i"
    by blast
  from g' e have eq: "g' = reminded_graph" by simp
  from a l have "if node_matches Appointment ''appointment_id'' (VStr ''A001'') (nodes p001_graph ! 1)
        then node_matches Appointment ''appointment_id'' (VStr ''A001'') (nodes g' ! 1) \<and>
             property (nodes g' ! 1) ''reminder_sent'' = VBool False \<and>
             (\<forall>k. k \<noteq> ''reminder_sent'' \<longrightarrow> property (nodes g' ! 1) k = property (nodes p001_graph ! 1) k)
        else nodes g' ! 1 = nodes p001_graph ! 1"
    by blast
  with nm eq have 1: "property (nodes reminded_graph ! 1) ''reminder_sent'' = VBool False"
    by simp
  from reminder_update [OF e4, of p001_graph True] m0
  have 2: "set_appointment_reminder p001_graph (VStr ''A404'') (VBool True) = Inr p001_graph"
    by auto
  from e1 e4 l nm e 1 m0 2 show ?thesis by (intro conjI)
qed

text \<open>
  Claim C6 as stated fails at an appointment id that the driver cannot encode: no
  appointment has that id, and the call raises instead of doing nothing.
\<close>

theorem reminder_update_counterexample:
  "match_nodes Appointment ''appointment_id'' (VInt (2 ^ 63)) p001_graph = [] \<and>
   set_appointment_reminder p001_graph (VInt (2 ^ 63)) (VBool True) = Inl OverflowError"
proof -
  have 1: "match_nodes Appointment ''appointment_id'' (VInt (2 ^ 63)) p001_graph = []"
    by code_simp
  have 2: "set_appointment_reminder p001_graph (VInt (2 ^ 63)) (VBool True) = Inl OverflowError"
    by (simp add: set_appointment_reminder_def match_set_def tx_run_def encodable_def)
  from 1 2 show ?thesis by (intro conjI)
qed

subsection \<open>C7\<close>

text \<open>
  Claim C7, as amended. Every node-creating function takes all the properties of its
  \<^verbatim>\<open>SET\<close> items as arguments; there is no call that supplies only some of them. On an
  entity that exists, and with arguments that the driver can encode, the call raises no
  error, creates nothing, overwrites exactly the properties named in its \<^verbatim>\<open>SET\<close> items
  with the values passed (a null value removes the property, which then reads as null),
  and leaves every property that is not named there, such as \<open>reminder_sent\<close> of an
  appointment, and every node that is not matched, unchanged.
\<close>

theorem upsert_frame:
  assumes "upsert_call x = Some (l, k, v, kvs)"
    and "list_all encodable (v # map snd kvs)"
    and "i < length (nodes g)" and "node_matches l k v (nodes g ! i)"
  shows "\<exists>g'. exec x g = Inr g' \<and> length (nodes g') = length (nodes g) \<and> rels g' = rels g \<and>
           label (nodes g' ! i) = label (nodes g ! i) \<and>
           (\<forall>k'. k' \<notin> fst ` set kvs \<longrightarrow> property (nodes g' ! i) k' = property (nodes g ! i) k') \<and>
           (\<forall>(k', v') \<in> set kvs. property (nodes g' ! i) k' = v') \<and>
           (\<forall>j < length (nodes g). \<not> node_matches l k v (nodes g ! j) \<longrightarrow> nodes g' ! j = nodes g ! j)"
proof -
  from assms(1) have "exec x g = merge_set l k v kvs g"
    and k: "k \<notin> fst ` set kvs" and d: "distinct (map fst kvs)"
    using upsert_call_exec by blast+
  with assms(2) have e: "exec x g = merge_set_stmt l k v kvs g"
    by (simp add: merge_set_def tx_run_encodable)
  from assms(4) have v: "v \<noteq> VNull" by (rule node_matches_not_null)
  from assms(3,4) have i: "i \<in> set (match_nodes l k v g)" by (simp add: set_match_nodes)
  then have ne: "match_nodes l k v g \<noteq> []" by auto
  let ?g' = "fold (set_node kvs) (match_nodes l k v g) g"
  have "exec x g = Inr ?g'" by (simp add: e merge_set_old v ne)
  moreover have "nodes ?g' ! i = set_properties kvs (nodes g ! i)"
    using i assms(3) by (simp add: nth_fold_set_node)
  moreover have "\<forall>j < length (nodes g). \<not> node_matches l k v (nodes g ! j) \<longrightarrow>
      nodes ?g' ! j = nodes g ! j"
    by (simp add: nth_fold_set_node set_match_nodes)
  ultimately show ?thesis
    using d by (auto simp: property_set_properties_other property_set_properties_in)
qed

theorem upsert_frame_witness:
  "upsert_call (Create_appointment (VStr ''A001'') (VStr ''2023-11-01'') (VStr ''09:30'')) =
     Some (Appointment, ''appointment_id'', VStr ''A001'',
           [(''date'', VStr ''2023-11-01''), (''time'', VStr ''09:30'')]) \<and>
   list_all encodable [VStr ''A001'', VStr ''2023-11-01'', VStr ''09:30''] \<and>
   1 < length (nodes reminded_graph) \<and>
   node_matches Appointment ''appointment_id'' (VStr ''A001'') (nodes reminded_graph ! 1) \<and>
   (\<exists>g'. exec (Create_appointment (VStr ''A001'') (VStr ''2023-11-01'') (VStr ''09:30''))
            reminded_graph = Inr g' \<and>
         property (nodes g' ! 1) ''reminder_sent'' = VBool False \<and>
         property (nodes g' ! 1) ''date'' = VStr ''2023-11-01'' \<and>
         property (nodes g' ! 1) ''time'' = VStr ''09:30'' \<and>
         nodes g' ! 0 = nodes reminded_graph ! 0 \<and>
         nodes g' ! 2 = nodes reminded_graph ! 2 \<and>
         rels g' = rels reminded_graph)"
proof -
  have c: "upsert_call (Create_appointment (VStr ''A001'') (VStr ''2023-11-01'') (VStr ''09:30'')) =
     Some (Appointment, ''appointment_id'', VStr ''A001'',
           [(''date'', VStr ''2023-11-01''), (''time'', VStr ''09:30'')])"
    by simp
  have n: "list_all encodable [VStr ''A001'', VStr ''2023-11-01'', VStr ''09:30'']"
    by simp
  then have n': "list_all encodable (VStr ''A001'' #
      map snd [(''date'', VStr ''2023-11-01''), (''time'', VStr ''09:30'')])"
    by simp
  have l: "1 < length (nodes reminded_graph)" by (simp add: reminded_graph_def)
  have m: "node_matches Appointment ''appointment_id'' (VStr ''A001'') (nodes reminded_graph ! 1)"
    by (simp add: reminded_graph_def node_matches_def property_def cypher_eq_def)
  have r: "property (nodes reminded_graph ! 1) ''reminder_sent'' = VBool False"
    by (simp add: reminded_graph_def property_def)
  have n0: "\<not> node_matches Appointment ''appointment_id'' (VStr ''A001'') (nodes reminded_graph ! 0)"
    by (simp add: reminded_graph_def node_matches_def)
  have n2: "\<not> node_matches Appointment ''appointment_id'' (VStr ''A001'') (nodes reminded_graph ! 2)"
    by (simp add: reminded_graph_def node_matches_def)
  have len: "length (nodes reminded_graph) = 3" by (simp add: reminded_graph_def)
  from upsert_frame [OF c n' l m] obtain g' where
    g': "exec (Create_appointment (VStr ''A001'') (VStr ''2023-11-01'') (VStr ''09:30'')) reminded_graph = Inr g'"
      "rels g' = rels reminded_graph"
      "\<forall>k'. k' \<notin> fst ` set [(''date'', VStr ''2023-11-01''), (''time'', VStr ''09:30'')] \<longrightarrow>
          property (nodes g' ! 1) k' = property (nodes reminded_graph ! 1) k'"
      "\<forall>(k', v') \<in> set [(''date'', VStr ''2023-11-01''), (''time'', VStr ''09:30'')].
          property (nodes g' ! 1) k' = v'"
      "\<forall>j < length (nodes reminded_graph).
          \<not> node_matches Appointment ''appointment_id'' (VStr ''A001'') (nodes reminded_graph ! j) \<longrightarrow>
          nodes g' ! j = nodes reminded_graph ! j"
    by blast
  from g'(3) r have "property (nodes g' ! 1) ''reminder_sent'' = VBool False" by simp
  moreover from g'(4) have "property (nodes g' ! 1) ''date'' = VStr ''2023-11-01''"
    "property (nodes g' ! 1) ''time'' = VStr ''09:30''" by simp_all
  moreover from g'(5) n0 n2 len have "nodes g' ! 0 = nodes reminded_graph ! 0"
    "nodes g' ! 2 = nodes reminded_graph ! 2" by simp_all
  ultimately show ?thesis using c n l m g'(1,2) by blast
qed

text \<open>
  Claim C7 as stated fails when an attribute is left out in the only way a call can leave
  it out, by passing null: the patient's age and contact, which the call does not supply,
  are removed instead of being left as they were. It also fails at an attribute that the
  driver cannot encode, where the call on the existing patient raises.
\<close>

theorem upsert_frame_counterexample:
  "exec (Create_patient (VStr ''P001'') (VStr ''Alice Smith'') VNull VNull) p001_graph =
     Inr name_only_graph \<and>
   property (nodes p001_graph ! 0) ''age'' = VInt 30 \<and>
   property (nodes name_only_graph ! 0) ''age'' = VNull \<and>
   property (nodes p001_graph ! 0) ''contact'' = VStr ''555-1234'' \<and>
   property (nodes name_only_graph ! 0) ''contact'' = VNull \<and>
   exec (Create_patient (VStr ''P001'') (VStr ''Alice Smith'') (VInt (2 ^ 63)) (VStr ''555-1234''))
     p001_graph = Inl OverflowError"
proof -
  have 1: "exec (Create_patient (VStr ''P001'') (VStr ''Alice Smith'') VNull VNull) p001_graph =
     Inr name_only_graph"
    by code_simp
  have 2: "property (nodes p001_graph ! 0) ''age'' = VInt 30"
    by (simp add: p001_graph_def property_def)
  have 3: "property (nodes name_only_graph ! 0) ''age'' = VNull"
    by (simp add: name_only_graph_def property_def)
  have 4: "property (nodes p001_graph ! 0) ''contact'' = VStr ''555-1234''"
    by (simp add: p001_graph_def property_def)
  have 5: "property (nodes name_only_graph ! 0) ''contact'' = VNull"
    by (simp add: name_only_graph_def property_def)
  have 6: "exec (Create_patient (VStr ''P001'') (VStr ''Alice Smith'') (VInt (2 ^ 63)) (VStr ''555-1234''))
     p001_graph = Inl OverflowError"
    by (simp add: create_patient_def merge_set_def tx_run_def encodable_def)
  from 1 2 3 4 5 6 show ?thesis by (intro conjI)
qed

subsection \<open>C8\<close>

text \<open>
  Claim C8. No operation deletes anything: after every successful call each node that
  was there is still there, with its label and its identifying properties, and the
  relationships that were there are a prefix of the relationships afterwards. A call that
  neither creates nodes nor links them (the reminder update and the three reads) changes
  no property other than \<open>reminder_sent\<close>. The executed flow runs without error, each of
  its steps keeps every node present before it unchanged apart from \<open>reminder_sent\<close> and
  keeps every relationship, and the calls made after the population are of that kind.
\<close>

theorem nothing_deleted:
  "(exec x g = Inr g' \<longrightarrow>
      length (nodes g) \<le> length (nodes g') \<and>
      (\<forall>i < length (nodes g). entity_of (nodes g' ! i) = entity_of (nodes g ! i)) \<and>
      set (map entity_of (nodes g)) \<subseteq> set (map entity_of (nodes g')) \<and>
      (\<exists>new. rels g' = rels g @ new) \<and>
      set (rels g) \<subseteq> set (rels g')) \<and>
   (upsert_call x = None \<and> link_call x = None \<and> exec x g = Inr g' \<longrightarrow>
      length (nodes g') = length (nodes g) \<and> rels g' = rels g \<and>
      (\<forall>i < length (nodes g). label (nodes g' ! i) = label (nodes g ! i) \<and>
         (\<forall>k. k \<noteq> ''reminder_sent'' \<longrightarrow>
            property (nodes g' ! i) k = property (nodes g ! i) k))) \<and>
   (\<exists>final. run notebook_flow empty_graph = Inr final) \<and>
   flow_keeps notebook_flow empty_graph \<and>
   (\<forall>y \<in> set after_population. upsert_call y = None \<and> link_call y = None)"
proof -
  have a: "exec x g = Inr g' \<longrightarrow>
      length (nodes g) \<le> length (nodes g') \<and>
      (\<forall>i < length (nodes g). entity_of (nodes g' ! i) = entity_of (nodes g ! i)) \<and>
      set (map entity_of (nodes g)) \<subseteq> set (map entity_of (nodes g')) \<and>
      (\<exists>new. rels g' = rels g @ new) \<and>
      set (rels g) \<subseteq> set (rels g')"
  proof
    assume e: "exec x g = Inr g'"
    note s = exec_shape [OF e]
    from s have len: "length (nodes g) \<le> length (nodes g')" by blast
    from s obtain new where new: "rels g' = rels g @ new" by blast
    have ent: "\<forall>i < length (nodes g). entity_of (nodes g' ! i) = entity_of (nodes g ! i)"
      using exec_entity_of [OF e] by blast
    have sub: "set (map entity_of (nodes g)) \<subseteq> set (map entity_of (nodes g'))"
    proof
      fix y assume "y \<in> set (map entity_of (nodes g))"
      then obtain i where i: "i < length (nodes g)" "y = entity_of (nodes g ! i)"
        by (auto simp: in_set_conv_nth)
      with ent have "y = entity_of (nodes g' ! i)" by simp
      moreover from i len have "i < length (nodes g')" by simp
      ultimately show "y \<in> set (map entity_of (nodes g'))"
        by simp
    qed
    from new have "set (rels g) \<subseteq> set (rels g')" by simp
    with len ent sub new
    show "length (nodes g) \<le> length (nodes g') \<and>
      (\<forall>i < length (nodes g). entity_of (nodes g' ! i) = entity_of (nodes g ! i)) \<and>
      set (map entity_of (nodes g)) \<subseteq> set (map entity_of (nodes g')) \<and>
      (\<exists>new. rels g' = rels g @ new) \<and>
      set (rels g) \<subseteq> set (rels g')"
      by blast
  qed
  have b: "upsert_call x = None \<and> link_call x = None \<and> exec x g = Inr g' \<longrightarrow>
      length (nodes g') = length (nodes g) \<and> rels g' = rels g \<and>
      (\<forall>i < length (nodes g). label (nodes g' ! i) = label (nodes g ! i) \<and>
         (\<forall>k. k \<noteq> ''reminder_sent'' \<longrightarrow>
            property (nodes g' ! i) k = property (nodes g ! i) k))"
    using exec_only_reminder [of x g g'] by blast
  have c: "\<forall>y \<in> set after_population. upsert_call y = None \<and> link_call y = None"
    by (simp add: after_population_def)
  show ?thesis
    apply (intro conjI)
        apply (rule a)
       apply (rule b)
      apply (rule flow_keeps_runs [OF flow_ok])
     apply (rule flow_ok)
    apply (rule c)
    done
qed

theorem nothing_deleted_witness:
  "upsert_call (Set_appointment_reminder (VStr ''A001'') (VBool False)) = None \<and>
   link_call (Set_appointment_reminder (VStr ''A001'') (VBool False)) = None \<and>
   exec (Set_appointment_reminder (VStr ''A001'') (VBool False)) p001_graph = Inr reminded_graph \<and>
   length (nodes reminded_graph) = length (nodes p001_graph) \<and>
   rels reminded_graph = rels p001_graph \<and>
   entity_of (nodes reminded_graph ! 1) = entity_of (nodes p001_graph ! 1) \<and>
   property (nodes reminded_graph ! 1) ''date'' = property (nodes p001_graph ! 1) ''date'' \<and>
   set (rels p001_graph) \<subseteq> set (rels reminded_graph) \<and>
   set after_population =
     {Set_appointment_reminder (VStr ''A001'') (VBool False), Get_doctor_workload} \<and>
   flow_keeps notebook_flow empty_graph"
proof -
  let ?x = "Set_appointment_reminder (VStr ''A001'') (VBool False)"
  note t = nothing_deleted [of ?x p001_graph reminded_graph]
  have u: "upsert_call ?x = None" and l: "link_call ?x = None" by simp_all
  have e: "exec ?x p001_graph = Inr reminded_graph" by code_simp
  have i: "1 < length (nodes p001_graph)" by (simp add: p001_graph_def)
  from t e have 1: "\<forall>i < length (nodes p001_graph).
      entity_of (nodes reminded_graph ! i) = entity_of (nodes p001_graph ! i)"
    and 2: "set (rels p001_graph) \<subseteq> set (rels reminded_graph)"
    by blast+
  from t u l e have 3: "length (nodes reminded_graph) = length (nodes p001_graph)"
    and 4: "rels reminded_graph = rels p001_graph"
    and 5: "\<forall>i < length (nodes p001_graph).
       label (nodes reminded_graph ! i) = label (nodes p001_graph ! i) \<and>
       (\<forall>k. k \<noteq> ''reminder_sent'' \<longrightarrow>
          property (nodes reminded_graph ! i) k = property (nodes p001_graph ! i) k)"
    by blast+
  from 1 i have 6: "entity_of (nodes reminded_graph ! 1) = entity_of (nodes p001_graph ! 1)"
    by blast
  from 5 i have "\<forall>k. k \<noteq> ''reminder_sent'' \<longrightarrow>
      property (nodes reminded_graph ! 1) k = property (nodes p001_graph ! 1) k"
    by blast
  then have 7: "property (nodes reminded_graph ! 1) ''date'' = property (nodes p001_graph ! 1) ''date''"
    by simp
  have 8: "set after_population = {?x, Get_doctor_workload}"
    by (simp add: after_population_def)
  from t have 9: "flow_keeps notebook_flow empty_graph" by blast
  from u l e 3 4 6 7 2 8 9 show ?thesis by (intro conjI)
qed

subsection \<open>C9\<close>

text \<open>
  Claim C9. The derived field is the payment minus the cost, for every record and for
  every row of a table; for a cost of 12000 and a payment of 13500 it is 1500.
\<close>

theorem revenue_gap:
  "Revenue_Gap r = Payment_Per_Patient r - Cost_Per_Patient r \<and>
   map fst (add_revenue_gap rs) = rs \<and>
   map snd (add_revenue_gap rs) = map (\<lambda>r. Payment_Per_Patient r - Cost_Per_Patient r) rs \<and>
   Revenue_Gap \<lparr>Hospital_ID = 1, State = ''CA'', Cost_Per_Patient = 12000,
                Payment_Per_Patient = 13500\<rparr> = 1500"
  by (simp add: Revenue_Gap_def add_revenue_gap_def comp_def)

subsection \<open>C10\<close>

text \<open>
  Claim C10. An appointment that is linked to a patient but has no \<^verbatim>\<open>WITH_DOCTOR\<close>
  relationship is in no row that \<open>get_patient_appointments\<close> returns: every returned row
  comes from another appointment, one that has a doctor. The call returns its rows for
  every patient id that the driver can encode.
\<close>

theorem doctorless_appointment_omitted:
  assumes "row_order ord" and "expand_out g a WITH_DOCTOR = []"
  shows "(encodable pid \<longrightarrow> (\<exists>rows. get_patient_appointments ord g pid = Inr rows)) \<and>
         (\<forall>rows. get_patient_appointments ord g pid = Inr rows \<longrightarrow>
            (\<forall>x \<in> set rows.
               \<exists>p a' d. a' \<noteq> a \<and>
                 p < length (nodes g) \<and> node_matches Patient ''patient_id'' pid (nodes g ! p) \<and>
                 Rel p HAS_APPOINTMENT a' \<in> set (rels g) \<and> a' < length (nodes g) \<and>
                 Rel a' WITH_DOCTOR d \<in> set (rels g) \<and> d < length (nodes g) \<and>
                 x = (property (nodes g ! a') ''appointment_id'', property (nodes g ! a') ''date'',
                      property (nodes g ! a') ''time'', property (nodes g ! d) ''name'')))"
proof (intro conjI allI impI ballI)
  assume "encodable pid"
  then show "\<exists>rows. get_patient_appointments ord g pid = Inr rows"
    by (simp add: get_patient_appointments_Inr)
next
  fix rows x
  assume r: "get_patient_appointments ord g pid = Inr rows" and x: "x \<in> set rows"
  from r have "rows = ord (patient_appointment_rows g pid)"
    unfolding get_patient_appointments_Inr by blast
  with x have "x \<in> set (ord (patient_appointment_rows g pid))" by simp
  then obtain p a' d where
    h: "p < length (nodes g)" "node_matches Patient ''patient_id'' pid (nodes g ! p)"
       "Rel p HAS_APPOINTMENT a' \<in> set (rels g)" "a' < length (nodes g)"
       "Rel a' WITH_DOCTOR d \<in> set (rels g)" "d < length (nodes g)"
       "x = (property (nodes g ! a') ''appointment_id'', property (nodes g ! a') ''date'',
             property (nodes g ! a') ''time'', property (nodes g ! d) ''name'')"
    unfolding mem_ordered_patient_appointment_rows [OF assms(1)] by blast
  from h(5,6) have "d \<in> set (expand_out g a' WITH_DOCTOR)"
    by (simp add: set_expand_out)
  with assms(2) have "a' \<noteq> a" by auto
  with h show "\<exists>p a' d. a' \<noteq> a \<and>
             p < length (nodes g) \<and> node_matches Patient ''patient_id'' pid (nodes g ! p) \<and>
             Rel p HAS_APPOINTMENT a' \<in> set (rels g) \<and> a' < length (nodes g) \<and>
             Rel a' WITH_DOCTOR d \<in> set (rels g) \<and> d < length (nodes g) \<and>
             x = (property (nodes g ! a') ''appointment_id'', property (nodes g ! a') ''date'',
                  property (nodes g ! a') ''time'', property (nodes g ! d) ''name'')"
    by blast
qed

theorem doctorless_appointment_omitted_witness:
  "expand_out half_linked_graph 3 WITH_DOCTOR = [] \<and>
   Rel 0 HAS_APPOINTMENT 3 \<in> set (rels half_linked_graph) \<and>
   get_patient_appointments id half_linked_graph (VStr ''P001'') =
     Inr [(VStr ''A001'', VStr ''2023-10-15'', VStr ''10:00'', VStr ''Dr. Emily Brown'')] \<and>
   (\<exists>p a' d. a' \<noteq> 3 \<and>
      p < length (nodes half_linked_graph) \<and>
      node_matches Patient ''patient_id'' (VStr ''P001'') (nodes half_linked_graph ! p) \<and>
      Rel p HAS_APPOINTMENT a' \<in> set (rels half_linked_graph) \<and>
      a' < length (nodes half_linked_graph) \<and>
      Rel a' WITH_DOCTOR d \<in> set (rels half_linked_graph) \<and>
      d < length (nodes half_linked_graph) \<and>
      (VStr ''A001'', VStr ''2023-10-15'', VStr ''10:00'', VStr ''Dr. Emily Brown'') =
        (property (nodes half_linked_graph ! a') ''appointment_id'',
         property (nodes half_linked_graph ! a') ''date'',
         property (nodes half_linked_graph ! a') ''time'',
         property (nodes half_linked_graph ! d) ''name''))"
proof -
  let ?row = "(VStr ''A001'', VStr ''2023-10-15'', VStr ''10:00'', VStr ''Dr. Emily Brown'')"
  have e: "expand_out half_linked_graph 3 WITH_DOCTOR = []"
    by code_simp
  have r: "Rel 0 HAS_APPOINTMENT 3 \<in> set (rels half_linked_graph)"
    by (simp add: half_linked_graph_def)
  have c: "get_patient_appointments id half_linked_graph (VStr ''P001'') = Inr [?row]"
    by code_simp
  have t: "\<forall>rows. get_patient_appointments id half_linked_graph (VStr ''P001'') = Inr rows \<longrightarrow>
            (\<forall>x \<in> set rows.
               \<exists>p a' d. a' \<noteq> 3 \<and>
                 p < length (nodes half_linked_graph) \<and>
                 node_matches Patient ''patient_id'' (VStr ''P001'') (nodes half_linked_graph ! p) \<and>
                 Rel p HAS_APPOINTMENT a' \<in> set (rels half_linked_graph) \<and>
                 a' < length (nodes half_linked_graph) \<and>
                 Rel a' WITH_DOCTOR d \<in> set (rels half_linked_graph) \<and>
                 d < length (nodes half_linked_graph) \<and>
                 x = (property (nodes half_linked_graph ! a') ''appointment_id'',
                      property (nodes half_linked_graph ! a') ''date'',
                      property (nodes half_linked_graph ! a') ''time'',
                      property (nodes half_linked_graph ! d) ''name''))"
    using doctorless_appointment_omitted [OF row_order_id e, of "VStr ''P001''"] by (elim conjE)
  from t c have "\<forall>x \<in> set [?row].
               \<exists>p a' d. a' \<noteq> 3 \<and>
                 p < length (nodes half_linked_graph) \<and>
                 node_matches Patient ''patient_id'' (VStr ''P001'') (nodes half_linked_graph ! p) \<and>
                 Rel p HAS_APPOINTMENT a' \<in> set (rels half_linked_graph) \<and>
                 a' < length (nodes half_linked_graph) \<and>
                 Rel a' WITH_DOCTOR d \<in> set (rels half_linked_graph) \<and>
                 d < length (nodes half_linked_graph) \<and>
                 x = (property (nodes half_linked_graph ! a') ''appointment_id'',
                      property (nodes half_linked_graph ! a') ''date'',
                      property (nodes half_linked_graph ! a') ''time'',
                      property (nodes half_linked_graph ! d) ''name'')"
    by blast
  then have "\<exists>p a' d. a' \<noteq> 3 \<and>
      p < length (nodes half_linked_graph) \<and>
      node_matches Patient ''patient_id'' (VStr ''P001'') (nodes half_linked_graph ! p) \<and>
      Rel p HAS_APPOINTMENT a' \<in> set (rels half_linked_graph) \<and>
      a' < length (nodes half_linked_graph) \<and>
      Rel a' WITH_DOCTOR d \<in> set (rels half_linked_graph) \<and>
      d < length (nodes half_linked_graph) \<and>
      ?row =
        (property (nodes half_linked_graph ! a') ''appointment_id'',
         property (nodes half_linked_graph ! a') ''date'',
         property (nodes half_linked_graph ! a') ''time'',
         property (nodes half_linked_graph ! d) ''name'')"
    by simp
  with e r c show ?thesis by (intro conjI)
qed

end
